theory Spec2Isabelle
  imports Main "HOL-Library.Sublist" "HOL-Library.Multiset"
begin

section \<open>Go library functions called by the server\<close>

text \<open>
  The server is written against Go's \<^verbatim>\<open>strings\<close>, \<^verbatim>\<open>path/filepath\<close>, \<^verbatim>\<open>strconv\<close>,
  \<^verbatim>\<open>bufio\<close> and \<^verbatim>\<open>regexp\<close> packages. Their functions are modelled here on byte strings
  (\<^typ>\<open>string\<close>), for a Unix target: the path separator is \<^verbatim>\<open>/\<close> and there are no
  volume names.
\<close>

subsection \<open>Package strings\<close>

definition strings_Contains :: "string \<Rightarrow> string \<Rightarrow> bool" where
  "strings_Contains s substr = sublist substr s"

definition strings_HasPrefix :: "string \<Rightarrow> string \<Rightarrow> bool" where
  "strings_HasPrefix s pre = prefix pre s"

definition strings_HasSuffix :: "string \<Rightarrow> string \<Rightarrow> bool" where
  "strings_HasSuffix s suf = suffix suf s"

definition strings_TrimSuffix :: "string \<Rightarrow> string \<Rightarrow> string" where
  "strings_TrimSuffix s suf =
     (if strings_HasSuffix s suf then take (length s - length suf) s else s)"

text \<open>\<^verbatim>\<open>strings.Split(s, sep)\<close> for a separator of one byte: n separators give n + 1 pieces.\<close>

fun strings_Split :: "string \<Rightarrow> char \<Rightarrow> string list" where
  "strings_Split [] sep = [[]]"
| "strings_Split (c # cs) sep =
     (if c = sep then [] # strings_Split cs sep
      else (case strings_Split cs sep of
              [] \<Rightarrow> [[c]]
            | piece # pieces \<Rightarrow> (c # piece) # pieces))"

fun strings_Join :: "string list \<Rightarrow> string \<Rightarrow> string" where
  "strings_Join [] sep = []"
| "strings_Join [e] sep = e"
| "strings_Join (e # e' # es) sep = e @ sep @ strings_Join (e' # es) sep"

text \<open>
  \<^verbatim>\<open>strings.TrimSpace\<close> removes leading, then trailing, white space as \<^verbatim>\<open>unicode.IsSpace\<close>
  defines it. On the UTF-8 bytes of a Go string these are the six ASCII characters
  and the encodings of U+0085, U+00A0, U+1680, U+2000 to U+200A, U+2028, U+2029,
  U+202F, U+205F and U+3000.
\<close>

definition spaceTokens :: "string list" where
  "spaceTokens =
     [[CHR 0x09], [CHR 0x0A], [CHR 0x0B], [CHR 0x0C], [CHR 0x0D], [CHR 0x20],
      [CHR 0xC2, CHR 0x85], [CHR 0xC2, CHR 0xA0], [CHR 0xE1, CHR 0x9A, CHR 0x80],
      [CHR 0xE2, CHR 0x80, CHR 0x80], [CHR 0xE2, CHR 0x80, CHR 0x81],
      [CHR 0xE2, CHR 0x80, CHR 0x82], [CHR 0xE2, CHR 0x80, CHR 0x83],
      [CHR 0xE2, CHR 0x80, CHR 0x84], [CHR 0xE2, CHR 0x80, CHR 0x85],
      [CHR 0xE2, CHR 0x80, CHR 0x86], [CHR 0xE2, CHR 0x80, CHR 0x87],
      [CHR 0xE2, CHR 0x80, CHR 0x88], [CHR 0xE2, CHR 0x80, CHR 0x89],
      [CHR 0xE2, CHR 0x80, CHR 0x8A], [CHR 0xE2, CHR 0x80, CHR 0xA8],
      [CHR 0xE2, CHR 0x80, CHR 0xA9], [CHR 0xE2, CHR 0x80, CHR 0xAF],
      [CHR 0xE2, CHR 0x81, CHR 0x9F], [CHR 0xE3, CHR 0x80, CHR 0x80]]"

function stripTokens :: "string list \<Rightarrow> string \<Rightarrow> string" where
  "stripTokens toks s =
     (case List.find (\<lambda>t. t \<noteq> [] \<and> prefix t s) toks of
        None \<Rightarrow> s
      | Some t \<Rightarrow> stripTokens toks (drop (length t) s))"
  by pat_completeness auto
termination
proof (relation "measure (\<lambda>(toks, s). length s)")
  show "wf (measure (\<lambda>(toks, s). length s))" by simp
next
  fix toks :: "string list" and s t :: string
  assume "List.find (\<lambda>t. t \<noteq> [] \<and> prefix t s) toks = Some t"
  then have "t \<noteq> []" and "prefix t s"
    by (auto simp: find_Some_iff)
  then have "s \<noteq> []" by auto
  with \<open>t \<noteq> []\<close> show "((toks, drop (length t) s), (toks, s)) \<in> measure (\<lambda>(toks, s). length s)"
    by simp
qed

declare stripTokens.simps [simp del]

definition strings_TrimSpace :: "string \<Rightarrow> string" where
  "strings_TrimSpace s =
     rev (stripTokens (map rev spaceTokens) (rev (stripTokens spaceTokens s)))"

subsection \<open>Package path/filepath\<close>

definition isRooted :: "string \<Rightarrow> bool" where
  "isRooted p = (case p of [] \<Rightarrow> False | c # _ \<Rightarrow> c = CHR ''/'')"

text \<open>
  \<^verbatim>\<open>filepath.Clean\<close> reads the path element by element and writes the kept elements to
  a buffer. Empty elements and \<^verbatim>\<open>.\<close> are skipped; \<^verbatim>\<open>..\<close> removes the last written
  element when there is one to remove, is written itself when the path is not rooted,
  and is dropped at the root. Here the buffer is the list \<open>out\<close> of written elements,
  last one first.
\<close>

fun cleanElems :: "bool \<Rightarrow> string list \<Rightarrow> string list \<Rightarrow> string list" where
  "cleanElems rooted out [] = rev out"
| "cleanElems rooted out (e # es) =
     (if e = [] \<or> e = ''.'' then cleanElems rooted out es
      else if e = ''..'' then
        (if out \<noteq> [] \<and> hd out \<noteq> ''..'' then cleanElems rooted (tl out) es
         else if \<not> rooted then cleanElems rooted (''..'' # out) es
         else cleanElems rooted out es)
      else cleanElems rooted (e # out) es)"

definition filepath_Clean :: "string \<Rightarrow> string" where
  "filepath_Clean path =
     (if path = [] then ''.''
      else
        let rooted = isRooted path;
            elems = cleanElems rooted [] (strings_Split path CHR ''/'')
        in if rooted then ''/'' @ strings_Join elems ''/''
           else if elems = [] then ''.''
           else strings_Join elems ''/'')"

text \<open>\<^verbatim>\<open>filepath.Join\<close> of two elements: empty elements are ignored, the result is cleaned.\<close>

definition filepath_Join :: "string \<Rightarrow> string \<Rightarrow> string" where
  "filepath_Join a b =
     (if a \<noteq> [] then filepath_Clean (a @ ''/'' @ b)
      else if b \<noteq> [] then filepath_Clean b
      else [])"

definition filepath_Base :: "string \<Rightarrow> string" where
  "filepath_Base path =
     (if path = [] then ''.''
      else
        let stripped = rev (dropWhile (\<lambda>c. c = CHR ''/'') (rev path));
            last_elem = rev (takeWhile (\<lambda>c. c \<noteq> CHR ''/'') (rev stripped))
        in if last_elem = [] then ''/'' else last_elem)"

text \<open>
  \<^verbatim>\<open>filepath.Rel\<close> cleans both paths, skips their common leading elements and climbs
  out of what is left of the base. It fails (\<open>None\<close>) when only one of the paths is
  rooted, and when the first differing element of the base is \<^verbatim>\<open>..\<close>. The server
  calls it with its base directory, which \<^verbatim>\<open>validateConfig\<close> has made absolute, as
  the base.
\<close>

definition pathElems :: "string \<Rightarrow> string list" where
  "pathElems p = (if p = [] then [] else if p = ''/'' then [[]] else strings_Split p CHR ''/'')"

fun dropCommon :: "string list \<Rightarrow> string list \<Rightarrow> string list \<times> string list" where
  "dropCommon (b # bs) (t # ts) = (if b = t then dropCommon bs ts else (b # bs, t # ts))"
| "dropCommon bs ts = (bs, ts)"

definition filepath_Rel :: "string \<Rightarrow> string \<Rightarrow> string option" where
  "filepath_Rel basepath targpath =
     (let base = filepath_Clean basepath;
          targ = filepath_Clean targpath
      in if targ = base then Some ''.''
         else
           let base' = (if base = ''.'' then [] else base)
           in if isRooted base' \<noteq> isRooted targ then None
              else
                (case dropCommon (pathElems base') (pathElems targ) of
                   (bs, ts) \<Rightarrow>
                     if bs \<noteq> [] \<and> ts \<noteq> [] \<and> hd bs = ''..'' then None
                     else if bs \<noteq> [] then
                       Some (strings_Join (replicate (length bs) ''..'' @ ts) ''/'')
                     else Some (strings_Join ts ''/'')))"

subsection \<open>Package strconv\<close>

definition isDigit :: "char \<Rightarrow> bool" where
  "isDigit c = (c \<in> set ''0123456789'')"

definition digitsValue :: "string \<Rightarrow> int" where
  "digitsValue ds = foldl (\<lambda>v c. 10 * v + (int (of_char c) - 48)) 0 ds"

text \<open>
  \<^verbatim>\<open>strconv.Atoi\<close>: an optional sign and decimal digits; out of the range of \<^verbatim>\<open>int\<close>
  (64 bits) it fails.
\<close>

definition strconv_Atoi :: "string \<Rightarrow> int option" where
  "strconv_Atoi s =
     (let neg = (s \<noteq> [] \<and> hd s = CHR ''-'');
          ds = (if s \<noteq> [] \<and> (hd s = CHR ''-'' \<or> hd s = CHR ''+'') then tl s else s);
          v = (if neg then - digitsValue ds else digitsValue ds)
      in if ds = [] \<or> \<not> list_all isDigit ds then None
         else if v < - (2 ^ 63) \<or> 2 ^ 63 - 1 < v then None
         else Some v)"

function natDigits :: "nat \<Rightarrow> string" where
  "natDigits n =
     (if n < 10 then [''0123456789'' ! n]
      else natDigits (n div 10) @ [''0123456789'' ! (n mod 10)])"
  by pat_completeness auto
termination
  by (relation "measure id") auto

declare natDigits.simps [simp del]

definition strconv_Itoa :: "int \<Rightarrow> string" where
  "strconv_Itoa i = (if i < 0 then CHR ''-'' # natDigits (nat (- i)) else natDigits (nat i))"

subsection \<open>Package regexp\<close>

text \<open>
  The one expression the server compiles is \<^verbatim>\<open>^([^:]+):(\d+)([:|-])(.*)$\<close>. A match is
  unique: group 1 is what precedes the first colon and is not empty, group 2 is the
  longest run of digits after that colon and is not empty, group 3 is the next byte,
  one of \<^verbatim>\<open>:\<close>, \<^verbatim>\<open>|\<close> and \<^verbatim>\<open>-\<close>, and group 4 is the rest, which holds no newline.
  \<open>lineRegex\<close> returns the four groups, \<open>None\<close> when \<^verbatim>\<open>FindStringSubmatch\<close> returns nil.
\<close>

definition lineRegex :: "string \<Rightarrow> (string \<times> string \<times> string \<times> string) option" where
  "lineRegex line =
     (let g1 = takeWhile (\<lambda>c. c \<noteq> CHR '':'') line;
          r1 = dropWhile (\<lambda>c. c \<noteq> CHR '':'') line
      in if g1 = [] \<or> r1 = [] then None
         else
           let g2 = takeWhile isDigit (tl r1);
               r2 = dropWhile isDigit (tl r1)
           in if g2 = [] \<or> r2 = [] then None
              else if hd r2 \<notin> set '':|-'' then None
              else if CHR 0x0A \<in> set (tl r2) then None
              else Some (g1, g2, [hd r2], tl r2))"

subsection \<open>Package bufio\<close>

text \<open>
  A \<^verbatim>\<open>bufio.Scanner\<close> with the default split function \<^verbatim>\<open>ScanLines\<close> yields the lines of
  its input without their end-of-line marker (a newline, with one carriage return
  before it dropped); a last line with no newline is a line when it is not empty. Its
  buffer is limited to \<^verbatim>\<open>MaxScanTokenSize\<close> bytes: at a line that does not fit,
  \<^verbatim>\<open>Scan\<close> returns false, as at the end of the input, and no later line is yielded.
\<close>

definition MaxScanTokenSize :: nat where
  "MaxScanTokenSize = 64 * 1024"

definition dropCR :: "string \<Rightarrow> string" where
  "dropCR data = (if data \<noteq> [] \<and> last data = CHR 0x0D then butlast data else data)"

definition rawLines :: "string \<Rightarrow> string list" where
  "rawLines input =
     (let pieces = strings_Split input CHR 0x0A
      in if last pieces = [] then butlast pieces else pieces)"

definition bufio_ScanLines :: "string \<Rightarrow> string list" where
  "bufio_ScanLines input =
     map dropCR (takeWhile (\<lambda>l. length l < MaxScanTokenSize) (rawLines input))"

section \<open>Configuration and path validation\<close>

record Config =
  Port :: string
  BasePath :: string
  MaxFileSize :: int

text \<open>
  The two errors of \<^verbatim>\<open>validateFilePath\<close>: \<^verbatim>\<open>"path traversal not allowed"\<close> and
  \<^verbatim>\<open>"path outside of allowed directory"\<close>.
\<close>

datatype path_error = PathTraversalNotAllowed | PathOutsideOfAllowedDirectory

definition validateFilePath :: "Config \<Rightarrow> string \<Rightarrow> path_error + string" where
  "validateFilePath config filePath =
     (let cleanPath = filepath_Clean filePath
      in if strings_Contains cleanPath ''..'' then Inl PathTraversalNotAllowed
         else
           let fullPath = filepath_Join (BasePath config) cleanPath
           in (case filepath_Rel (BasePath config) fullPath of
                 None \<Rightarrow> Inl PathOutsideOfAllowedDirectory
               | Some relPath \<Rightarrow>
                   if strings_HasPrefix relPath ''..'' then Inl PathOutsideOfAllowedDirectory
                   else Inr fullPath))"

section \<open>Data model\<close>

record GrepQuery =
  Pattern :: string
  FilePattern :: "string option"
  IgnoreCase :: "bool option"

record GrepLine =
  LineNumber :: int
  Content :: string
  IsMatch :: bool

record GrepMatchResult =
  FilePath :: string
  Lines :: "GrepLine list"

text \<open>A nil slice of matches is \<open>None\<close>, an empty one \<open>Some []\<close>; a nil error is \<open>None\<close>.\<close>

record GrepResult =
  Query :: string
  Matches :: "GrepMatchResult list option"
  Error :: "string option"

datatype FileNode =
  FileNode (Name: string) (Type: string) (Size: "int option") (Children: "FileNode list")
    (Path: string)

section \<open>The search engine\<close>

subsection \<open>The environment of a search\<close>

text \<open>
  What \<^verbatim>\<open>cmd.Output()\<close> returns: the captured standard output when the error is nil
  (exit status 0); an \<^verbatim>\<open>*exec.ExitError\<close> with its exit code and text; or any other
  error, such as a program that cannot be started.
\<close>

datatype cmd_result =
  CmdOutput string
  | CmdExitError int string
  | CmdOtherError string

text \<open>
  The world a search runs in: \<open>grep w n args\<close> is what the process started as the
  \<open>n\<close>-th one, with the arguments \<open>args\<close>, comes back with; \<open>spawned w\<close> lists the
  argument vectors of the processes started so far; \<open>rangeSeed w n\<close> fixes the order
  in which a \<^verbatim>\<open>range\<close> over a map visits its entries after \<open>n\<close> processes have been
  started (Go leaves that order unspecified).
\<close>

record world =
  grep :: "nat \<Rightarrow> string list \<Rightarrow> cmd_result"
  rangeSeed :: "nat \<Rightarrow> nat list"
  spawned :: "string list list"

definition exec_Output :: "world \<Rightarrow> string list \<Rightarrow> cmd_result \<times> world" where
  "exec_Output w args = (grep w (length (spawned w)) args, w\<lparr>spawned := spawned w @ [args]\<rparr>)"

text \<open>
  A Go map is kept as the list of its entries, oldest key first. \<open>mapAppend\<close> is
  \<^verbatim>\<open>m[k] = append(m[k], v)\<close>. \<open>mapRange\<close> is the order of one \<^verbatim>\<open>range\<close> over the map:
  the seed picks the entry to visit next among those not visited yet, so that every
  seed gives a permutation of the entries and every permutation has a seed.
\<close>

fun mapAppend :: "('k \<times> 'v list) list \<Rightarrow> 'k \<Rightarrow> 'v \<Rightarrow> ('k \<times> 'v list) list" where
  "mapAppend [] k v = [(k, [v])]"
| "mapAppend ((k', vs) # m) k v =
     (if k' = k then (k', vs @ [v]) # m else (k', vs) # mapAppend m k v)"

fun mapRange :: "nat list \<Rightarrow> 'a list \<Rightarrow> 'a list" where
  "mapRange [] entries = entries"
| "mapRange (n # seed) entries =
     (if entries = [] then []
      else
        let i = n mod length entries
        in entries ! i # mapRange seed (take i entries @ drop (Suc i) entries))"

subsection \<open>Parsing the output of grep\<close>

text \<open>The body of the loop over the lines of the output.\<close>

definition parseGrepLine ::
  "Config \<Rightarrow> (string \<times> GrepLine list) list \<Rightarrow> string \<Rightarrow> (string \<times> GrepLine list) list" where
  "parseGrepLine config matches line =
     (if line = ''--'' then matches
      else
        (case lineRegex line of
           None \<Rightarrow> matches
         | Some (filePath, lineNumStr, separator, content) \<Rightarrow>
             let relPath = (case filepath_Rel (BasePath config) filePath of
                              None \<Rightarrow> filePath
                            | Some rel \<Rightarrow> rel)
             in (case strconv_Atoi lineNumStr of
                   None \<Rightarrow> matches
                 | Some lineNum \<Rightarrow>
                     mapAppend matches relPath
                       \<lparr>LineNumber = lineNum, Content = content, IsMatch = (separator = '':'')\<rparr>)))"

definition grepLines :: "string \<Rightarrow> string list" where
  "grepLines output = strings_Split (strings_TrimSpace output) CHR 0x0A"

text \<open>
  \<^verbatim>\<open>parseGrepOutput\<close> never returns an error, so the model returns the slice alone.
  The final loop ranges over the map.
\<close>

definition parseGrepOutput :: "Config \<Rightarrow> world \<Rightarrow> string \<Rightarrow> GrepMatchResult list" where
  "parseGrepOutput config w output =
     (if output = [] then []
      else
        let matches = foldl (parseGrepLine config) [] (grepLines output)
        in map (\<lambda>(filePath, lines). \<lparr>FilePath = filePath, Lines = lines\<rparr>)
             (mapRange (rangeSeed w (length (spawned w))) matches))"

subsection \<open>Running one query\<close>

definition grepArgs :: "Config \<Rightarrow> GrepQuery \<Rightarrow> int \<Rightarrow> string list" where
  "grepArgs config query contextLines =
     (if contextLines > 0 then [''-C'', strconv_Itoa contextLines] else [])
     @ [''-n'']
     @ (if IgnoreCase query = Some True then [''-i''] else [])
     @ [''-r'']
     @ [Pattern query]
     @ (case FilePattern query of None \<Rightarrow> [] | Some fp \<Rightarrow> [''--include='' @ fp])
     @ [BasePath config]"

definition executeGrepQuery ::
  "Config \<Rightarrow> world \<Rightarrow> GrepQuery \<Rightarrow> int \<Rightarrow> (string + GrepResult) \<times> world" where
  "executeGrepQuery config w query contextLines =
     (case exec_Output w (grepArgs config query contextLines) of
        (CmdExitError code msg, w') \<Rightarrow>
          if code = 1 then (Inr \<lparr>Query = Pattern query, Matches = Some [], Error = None\<rparr>, w')
          else (Inl (''grep command failed: '' @ msg), w')
      | (CmdOtherError msg, w') \<Rightarrow> (Inl (''grep command failed: '' @ msg), w')
      | (CmdOutput output, w') \<Rightarrow>
          (Inr \<lparr>Query = Pattern query, Matches = Some (parseGrepOutput config w' output),
                Error = None\<rparr>, w'))"

section \<open>Tool results\<close>

text \<open>
  A tool call ends in \<^verbatim>\<open>mcp.NewToolResultError\<close> or \<^verbatim>\<open>mcp.NewToolResultText\<close>. Each
  error constructor stands for one message format of the handlers, with the values
  formatted into it; \<open>FileTooLarge size max\<close> is
  \<^verbatim>\<open>"File too large (%.2f MB > %.2f MB)"\<close> with \<open>size\<close> and \<open>max\<close>, each divided by
  1024 twice. Each payload constructor stands for one JSON object that a handler
  marshals, with its fields in the order of the source. Marshalling these objects
  cannot fail, so the \<^verbatim>\<open>"Failed to marshal result"\<close> branches have no counterpart.
\<close>

datatype tool_error =
  MissingRequiredParameter
  | InvalidFilePath path_error
  | FileNotFound string
  | FileTooLarge int int
  | FailedToReadFile string
  | QueriesMustBeJSONString
  | InvalidQueriesJSON string
  | AtLeastOneSearchQueryRequired
  | Maximum20SearchQueriesAllowed
  | FailedToReadFileStructure string

datatype payload =
  FileContents string int string
  | SearchResults string int "GrepResult list"
  | FileStructure string "FileNode option" string

datatype tool_result =
  ToolResultError tool_error
  | ToolResultText payload

section \<open>The grep_search tool\<close>

text \<open>
  The \<^verbatim>\<open>queries\<close> argument of a request: not a string, a string that
  \<^verbatim>\<open>json.Unmarshal\<close> rejects (with the decoder's message), or a string decoded to a
  slice of queries. The \<^verbatim>\<open>context_lines\<close> argument is \<open>Some n\<close> when it is present as
  a number, converted to \<^verbatim>\<open>int\<close>.
\<close>

datatype queries_arg =
  QueriesNotAString
  | QueriesBadJSON string
  | QueriesDecoded "GrepQuery list"

text \<open>The loop \<^verbatim>\<open>for i, query := range queries\<close>, writing \<^verbatim>\<open>results[i]\<close>.\<close>

fun searchLoop ::
  "Config \<Rightarrow> int \<Rightarrow> nat \<Rightarrow> GrepQuery list \<Rightarrow> GrepResult list \<times> world \<Rightarrow> GrepResult list \<times> world"
  where
  "searchLoop config contextLines i [] (results, w) = (results, w)"
| "searchLoop config contextLines i (query # queries) (results, w) =
     (case executeGrepQuery config w query contextLines of
        (Inl errorMsg, w') \<Rightarrow>
          searchLoop config contextLines (Suc i) queries
            (results[i := \<lparr>Query = Pattern query, Matches = None, Error = Some errorMsg\<rparr>], w')
      | (Inr result, w') \<Rightarrow>
          searchLoop config contextLines (Suc i) queries (results[i := result], w'))"

definition handleGrepSearch ::
  "Config \<Rightarrow> world \<Rightarrow> queries_arg \<Rightarrow> int option \<Rightarrow> tool_result \<times> world" where
  "handleGrepSearch config w queriesArg contextArg =
     (case queriesArg of
        QueriesNotAString \<Rightarrow> (ToolResultError QueriesMustBeJSONString, w)
      | QueriesBadJSON err \<Rightarrow> (ToolResultError (InvalidQueriesJSON err), w)
      | QueriesDecoded queries \<Rightarrow>
          if length queries = 0 then (ToolResultError AtLeastOneSearchQueryRequired, w)
          else if length queries > 20 then (ToolResultError Maximum20SearchQueriesAllowed, w)
          else
            let contextLines = (case contextArg of None \<Rightarrow> 5 | Some cl \<Rightarrow> cl);
                zero = \<lparr>Query = [], Matches = None, Error = None\<rparr>
            in (case searchLoop config contextLines 0 queries
                       (replicate (length queries) zero, w) of
                  (results, w') \<Rightarrow>
                    (ToolResultText (SearchResults (BasePath config) contextLines results), w')))"

section \<open>The read_file_contents tool\<close>

text \<open>
  The file system as the handler sees it: \<^verbatim>\<open>os.Stat\<close> gives an error text or the size
  of the file, \<^verbatim>\<open>os.ReadFile\<close> an error text or the bytes of the file. The handler
  returns its result with the file system calls it made, in order.
\<close>

record filesys =
  os_Stat :: "string \<Rightarrow> string + int"
  os_ReadFile :: "string \<Rightarrow> string + string"

datatype fs_op = OpStat string | OpReadFile string

definition handleReadFileContents ::
  "Config \<Rightarrow> filesys \<Rightarrow> string option \<Rightarrow> tool_result \<times> fs_op list" where
  "handleReadFileContents config fs arg =
     (case arg of
        None \<Rightarrow> (ToolResultError MissingRequiredParameter, [])
      | Some filePath \<Rightarrow>
          (case validateFilePath config filePath of
             Inl err \<Rightarrow> (ToolResultError (InvalidFilePath err), [])
           | Inr fullPath \<Rightarrow>
               (case os_Stat fs fullPath of
                  Inl err \<Rightarrow> (ToolResultError (FileNotFound err), [OpStat fullPath])
                | Inr statSize \<Rightarrow>
                    if statSize > MaxFileSize config then
                      (ToolResultError (FileTooLarge statSize (MaxFileSize config)),
                       [OpStat fullPath])
                    else
                      (case os_ReadFile fs fullPath of
                         Inl err \<Rightarrow>
                           (ToolResultError (FailedToReadFile err),
                            [OpStat fullPath, OpReadFile fullPath])
                       | Inr content \<Rightarrow>
                           (ToolResultText (FileContents filePath statSize content),
                            [OpStat fullPath, OpReadFile fullPath])))))"

section \<open>The read_file_structure tool\<close>

subsection \<open>The ignore filter\<close>

record GitignoreFilter =
  patterns :: "string list"
  basePath :: "string"

text \<open>The body of the loop over the lines of the ignore file.\<close>

definition scanPattern :: "string list \<Rightarrow> string \<Rightarrow> string list" where
  "scanPattern pats text =
     (let line = strings_TrimSpace text
      in if line = [] \<or> strings_HasPrefix line ''#'' then pats
         else if \<not> strings_HasPrefix line ''!'' then pats @ [line]
         else pats)"

text \<open>
  \<open>os_Open path\<close> is \<open>None\<close> when the file cannot be opened, else the bytes that can
  be read from it.
\<close>

definition NewGitignoreFilter :: "(string \<Rightarrow> string option) \<Rightarrow> string \<Rightarrow> GitignoreFilter" where
  "NewGitignoreFilter os_Open base =
     (let gitignorePath = filepath_Join base ''.gitignore''
      in \<lparr>patterns =
            (case os_Open gitignorePath of
               None \<Rightarrow> [''.git'', ''.git/'']
             | Some input \<Rightarrow> foldl scanPattern [''.git'', ''.git/''] (bufio_ScanLines input)),
          basePath = base\<rparr>)"

text \<open>
  \<^verbatim>\<open>filepath.Match\<close> is a parameter of the filter: \<open>match pattern name\<close> is the
  boolean it returns (false for a malformed pattern, whose error the filter drops).
  \<open>patternIgnores\<close> is the body of the loop over the patterns: whether the pattern
  makes \<^verbatim>\<open>ShouldIgnore\<close> return true.
\<close>

definition patternIgnores ::
  "(string \<Rightarrow> string \<Rightarrow> bool) \<Rightarrow> string \<Rightarrow> string \<Rightarrow> string \<Rightarrow> bool" where
  "patternIgnores match relPath fileName pattern =
     (if strings_HasSuffix pattern ''/'' then
        let dirPattern = strings_TrimSuffix pattern ''/''
        in match dirPattern fileName \<or> strings_Contains relPath (dirPattern @ ''/'')
      else
        match pattern fileName
        \<or> (strings_Contains pattern ''/''
            \<and> (match pattern relPath
                 \<or> (let pathParts = strings_Split relPath CHR ''/''
                     in list_ex (\<lambda>i. match pattern (strings_Join (drop i pathParts) ''/''))
                          [0..<length pathParts]))))"

definition ShouldIgnore :: "(string \<Rightarrow> string \<Rightarrow> bool) \<Rightarrow> GitignoreFilter \<Rightarrow> string \<Rightarrow> bool" where
  "ShouldIgnore match f path =
     (case filepath_Rel (basePath f) path of
        None \<Rightarrow> False
      | Some relPath \<Rightarrow>
          if strings_HasPrefix relPath ''.git'' \<or> strings_Contains relPath ''/.git'' then True
          else list_ex (patternIgnores match relPath (filepath_Base path)) (patterns f))"

subsection \<open>The tree builder\<close>

text \<open>
  The directory tree under a path, as \<^verbatim>\<open>os.Stat\<close> and \<^verbatim>\<open>os.ReadDir\<close> show it: a path
  that cannot be examined, something that is not a directory with its size, a
  directory with its entries in the order of the listing, or a directory that cannot
  be listed.
\<close>

datatype fsnode =
  StatFails string
  | NotDir int
  | Dir "(string \<times> fsnode) list"
  | ReadDirFails string

definition nodePath :: "Config \<Rightarrow> string \<Rightarrow> string" where
  "nodePath config dirPath =
     (case filepath_Rel (BasePath config) dirPath of
        None \<Rightarrow> []
      | Some relPath \<Rightarrow> if relPath = ''.'' then [] else relPath)"

text \<open>
  \<open>Inl\<close> is the error, \<open>Inr None\<close> the result \<^verbatim>\<open>nil, nil\<close> for an ignored path.
\<close>

fun buildFileTreeWithFilter ::
  "(string \<Rightarrow> string \<Rightarrow> bool) \<Rightarrow> Config \<Rightarrow> string \<Rightarrow> int \<Rightarrow> GitignoreFilter \<Rightarrow> fsnode
     \<Rightarrow> string + FileNode option" where
  "buildFileTreeWithFilter match config dirPath currentDepth ignoreFilter (StatFails err) =
     (if ShouldIgnore match ignoreFilter dirPath then Inr None else Inl err)"
| "buildFileTreeWithFilter match config dirPath currentDepth ignoreFilter (NotDir statSize) =
     (if ShouldIgnore match ignoreFilter dirPath then Inr None
      else Inr (Some (FileNode (filepath_Base dirPath) ''file'' (Some statSize) []
                        (nodePath config dirPath))))"
| "buildFileTreeWithFilter match config dirPath currentDepth ignoreFilter (ReadDirFails err) =
     (if ShouldIgnore match ignoreFilter dirPath then Inr None else Inl err)"
| "buildFileTreeWithFilter match config dirPath currentDepth ignoreFilter (Dir entries) =
     (if ShouldIgnore match ignoreFilter dirPath then Inr None
      else
        Inr (Some (FileNode (filepath_Base dirPath) ''directory'' None
          (concat (map (\<lambda>(name, entry).
               let childPath = filepath_Join dirPath name
               in if ShouldIgnore match ignoreFilter childPath then []
                  else
                    (case buildFileTreeWithFilter match config childPath (currentDepth + 1)
                            ignoreFilter entry of
                       Inl err \<Rightarrow> []
                     | Inr None \<Rightarrow> []
                     | Inr (Some child) \<Rightarrow> [child]))
             entries))
          (nodePath config dirPath))))"

definition handleReadFileStructure ::
  "(string \<Rightarrow> string \<Rightarrow> bool) \<Rightarrow> Config \<Rightarrow> (string \<Rightarrow> string option) \<Rightarrow> fsnode \<Rightarrow> tool_result"
  where
  "handleReadFileStructure match config os_Open root =
     (let ignoreFilter = NewGitignoreFilter os_Open (BasePath config)
      in (case buildFileTreeWithFilter match config (BasePath config) 0 ignoreFilter root of
            Inl err \<Rightarrow> ToolResultError (FailedToReadFileStructure err)
          | Inr structure \<Rightarrow>
              ToolResultText
                (FileStructure (BasePath config) structure
                   ''Filtered out .git directory and .gitignore patterns'')))"

section \<open>Notions used in the statements\<close>

text \<open>A path has a parent-directory segment when one of its elements is \<^verbatim>\<open>..\<close>.\<close>

definition hasParentSegment :: "string \<Rightarrow> bool" where
  "hasParentSegment p = (''..'' \<in> set (strings_Split p CHR ''/''))"

text \<open>
  What the loop of \<^verbatim>\<open>handleGrepSearch\<close> stores for a query, from what
  \<^verbatim>\<open>executeGrepQuery\<close> returned for it.
\<close>

definition storedResult :: "GrepQuery \<Rightarrow> string + GrepResult \<Rightarrow> GrepResult" where
  "storedResult query r =
     (case r of
        Inl errorMsg \<Rightarrow> \<lparr>Query = Pattern query, Matches = None, Error = Some errorMsg\<rparr>
      | Inr result \<Rightarrow> result)"

text \<open>The world after the processes of the queries \<open>qs\<close> have been started.\<close>

definition worldAfter :: "Config \<Rightarrow> int \<Rightarrow> world \<Rightarrow> GrepQuery list \<Rightarrow> world" where
  "worldAfter config contextLines w qs =
     w\<lparr>spawned := spawned w @ map (\<lambda>q. grepArgs config q contextLines) qs\<rparr>"

text \<open>The results of the queries run one after the other, each in the world the one before left.\<close>

fun queryResults :: "Config \<Rightarrow> int \<Rightarrow> world \<Rightarrow> GrepQuery list \<Rightarrow> GrepResult list" where
  "queryResults config contextLines w [] = []"
| "queryResults config contextLines w (q # qs) =
     storedResult q (fst (executeGrepQuery config w q contextLines))
     # queryResults config contextLines (snd (executeGrepQuery config w q contextLines)) qs"

text \<open>
  A process failed when it did not exit with status 0 and did not exit with grep's
  status 1 for "no line selected".
\<close>

definition processFailed :: "cmd_result \<Rightarrow> bool" where
  "processFailed r =
     (case r of
        CmdOutput output \<Rightarrow> False
      | CmdExitError code msg \<Rightarrow> code \<noteq> 1
      | CmdOtherError msg \<Rightarrow> True)"

text \<open>The \<^verbatim>\<open>results\<close> of a search call; empty when the call failed.\<close>

definition searchResults :: "tool_result \<times> world \<Rightarrow> GrepResult list" where
  "searchResults r =
     (case fst r of
        ToolResultText (SearchResults base contextLines results) \<Rightarrow> results
      | _ \<Rightarrow> [])"

definition contextLinesOf :: "int option \<Rightarrow> int" where
  "contextLinesOf contextArg = (case contextArg of None \<Rightarrow> 5 | Some cl \<Rightarrow> cl)"

text \<open>
  First-seen-key order, in the words of the specification: the record that a line of
  the output contributes (its file key and its line), the records of an output in
  the order of its lines, the keys in the order in which each is first met, and the
  lines recorded under one key.
\<close>

fun firstSeen :: "'a list \<Rightarrow> 'a list" where
  "firstSeen [] = []"
| "firstSeen (x # xs) = x # filter (\<lambda>y. y \<noteq> x) (firstSeen xs)"

definition grepRecord :: "Config \<Rightarrow> string \<Rightarrow> (string \<times> GrepLine) option" where
  "grepRecord config line =
     (if line = ''--'' then None
      else
        (case lineRegex line of
           None \<Rightarrow> None
         | Some (filePath, lineNumStr, separator, content) \<Rightarrow>
             (case strconv_Atoi lineNumStr of
                None \<Rightarrow> None
              | Some lineNum \<Rightarrow>
                  Some (case filepath_Rel (BasePath config) filePath of
                          None \<Rightarrow> filePath
                        | Some rel \<Rightarrow> rel,
                        \<lparr>LineNumber = lineNum, Content = content,
                          IsMatch = (separator = '':'')\<rparr>))))"

definition grepRecords :: "Config \<Rightarrow> string \<Rightarrow> (string \<times> GrepLine) list" where
  "grepRecords config output = List.map_filter (grepRecord config) (grepLines output)"

definition firstSeenKeys :: "Config \<Rightarrow> string \<Rightarrow> string list" where
  "firstSeenKeys config output = firstSeen (map fst (grepRecords config output))"

definition linesOfFile :: "Config \<Rightarrow> string \<Rightarrow> string \<Rightarrow> GrepLine list" where
  "linesOfFile config output key =
     map snd (filter (\<lambda>r. fst r = key) (grepRecords config output))"

text \<open>
  The values stored under a key of a map (none when the key is absent), and the map
  after one more record.
\<close>

definition valuesOf :: "('k \<times> 'v list) list \<Rightarrow> 'k \<Rightarrow> 'v list" where
  "valuesOf m k = (case map_of m k of None \<Rightarrow> [] | Some vs \<Rightarrow> vs)"

definition addRecord :: "('k \<times> 'v list) list \<Rightarrow> 'k \<times> 'v \<Rightarrow> ('k \<times> 'v list) list" where
  "addRecord m r = mapAppend m (fst r) (snd r)"

text \<open>The nodes of a tree, the root first.\<close>

fun subnodes :: "FileNode \<Rightarrow> FileNode list" where
  "subnodes (FileNode name type sz children path) =
     FileNode name type sz children path # concat (map subnodes children)"

text \<open>
  A base-relative path is that of the version-control directory, or of something
  below a version-control directory, when one of its elements is \<^verbatim>\<open>.git\<close>.
\<close>

definition hasGitSegment :: "string \<Rightarrow> bool" where
  "hasGitSegment p = (''.git'' \<in> set (strings_Split p CHR ''/''))"

text \<open>
  The invariant of a node: a file has a size and no children, a directory has no
  size; and the path of each child is the path of its parent, a separator when the
  parent is not the root, and the name of the child.
\<close>

definition nodeShape :: "FileNode \<Rightarrow> bool" where
  "nodeShape n =
     (Type n = ''file'' \<and> Children n = [] \<and> Size n \<noteq> None
      \<or> Type n = ''directory'' \<and> Size n = None)"

definition childPathsOk :: "FileNode \<Rightarrow> bool" where
  "childPathsOk n =
     list_all (\<lambda>c. Path c = (if Path n = [] then Name c else Path n @ ''/'' @ Name c))
       (Children n)"

text \<open>
  The names that a directory listing can hold: not empty, not \<^verbatim>\<open>.\<close> or \<^verbatim>\<open>..\<close>, and
  without a separator. \<open>absPath\<close> is the absolute path with the given elements; the
  cleaned absolute paths are those whose elements are such names.
\<close>

definition validName :: "string \<Rightarrow> bool" where
  "validName n = (n \<noteq> [] \<and> n \<noteq> ''.'' \<and> n \<noteq> ''..'' \<and> CHR ''/'' \<notin> set n)"

fun validFs :: "fsnode \<Rightarrow> bool" where
  "validFs (Dir entries) = list_all (\<lambda>(name, entry). validName name \<and> validFs entry) entries"
| "validFs node = True"

definition absPath :: "string list \<Rightarrow> string" where
  "absPath elems = ''/'' @ strings_Join elems ''/''"

text \<open>\<^verbatim>\<open>filepath.Match\<close> for the patterns that have no metacharacter.\<close>

definition literalMatch :: "string \<Rightarrow> string \<Rightarrow> bool" where
  "literalMatch pattern name = (pattern = name)"

section \<open>Example inputs\<close>

definition exampleConfig :: Config where
  "exampleConfig = \<lparr>Port = '':3001'', BasePath = ''/base'', MaxFileSize = 10\<rparr>"

text \<open>
  A file system with \<^verbatim>\<open>/base/a.txt\<close> (5 bytes), \<^verbatim>\<open>/base/b\<close> (2 bytes) and
  \<^verbatim>\<open>/base/big.bin\<close> (11 bytes, more than \<open>exampleConfig\<close> allows).
\<close>

definition exampleFs :: filesys where
  "exampleFs =
     \<lparr>os_Stat = (\<lambda>p. if p = ''/base/a.txt'' then Inr 5
                     else if p = ''/base/b'' then Inr 2
                     else if p = ''/base/big.bin'' then Inr 11
                     else Inl ''no such file or directory''),
      os_ReadFile = (\<lambda>p. if p = ''/base/a.txt'' then Inr ''hello''
                         else if p = ''/base/b'' then Inr ''hi''
                         else if p = ''/base/big.bin'' then Inr ''0123456789A''
                         else Inl ''no such file or directory'')\<rparr>"

text \<open>
  A world in which the first process finds nothing (status 1), the second fails
  (status 2) and every later one prints two lines of two files; a map is ranged over
  from its second entry.
\<close>

definition exampleWorld :: world where
  "exampleWorld =
     \<lparr>grep = (\<lambda>n args.
         if n = 0 then CmdExitError 1 ''exit status 1''
         else if n = 1 then CmdExitError 2 ''exit status 2''
         else CmdOutput ''/base/a.txt:1:alpha\<newline>/base/b.txt:7:beta\<newline>''),
      rangeSeed = (\<lambda>n. [1]),
      spawned = []\<rparr>"

definition exampleQuery :: "string \<Rightarrow> GrepQuery" where
  "exampleQuery pat = \<lparr>Pattern = pat, FilePattern = None, IgnoreCase = None\<rparr>"

definition exampleQueries :: "GrepQuery list" where
  "exampleQueries = [exampleQuery ''x'', exampleQuery ''y'', exampleQuery ''alpha'']"

definition exampleOutput :: string where
  "exampleOutput = ''/base/a.txt:1:alpha\<newline>/base/b.txt:7:beta\<newline>/base/a.txt:3:alpha\<newline>''"

text \<open>
  A base directory with a repository directory, an ignore file, a file, a directory
  that the ignore file names, and a subdirectory with a nested \<^verbatim>\<open>.git\<close> entry and an
  entry that cannot be examined.
\<close>

definition exampleTree :: fsnode where
  "exampleTree =
     Dir [(''.git'', Dir [(''HEAD'', NotDir 3)]),
          (''.gitignore'', NotDir 8),
          (''a.txt'', NotDir 17),
          (''secret'', Dir [(''x.txt'', NotDir 1)]),
          (''sub'', Dir [(''.git'', NotDir 2), (''b.txt'', NotDir 4),
                         (''gone'', StatFails ''no such file or directory'')])]"

definition exampleOpen :: "string \<Rightarrow> string option" where
  "exampleOpen p = (if p = ''/base/.gitignore'' then Some ''secret/\<newline>'' else None)"

definition exampleStructure :: FileNode where
  "exampleStructure =
     FileNode ''base'' ''directory'' None
       [FileNode ''a.txt'' ''file'' (Some 17) [] ''a.txt'',
        FileNode ''sub'' ''directory'' None
          [FileNode ''b.txt'' ''file'' (Some 4) [] ''sub/b.txt'']
          ''sub'']
       []"

text \<open>
  An ignore file whose first line is a negation line of 65537 bytes, more than the
  scanner's buffer holds, followed by the line of \<open>exampleOpen\<close>.
\<close>

definition longNegation :: string where
  "longNegation = CHR ''!'' # replicate 65536 CHR ''x''"

definition exampleOpenLong :: "string \<Rightarrow> string option" where
  "exampleOpenLong p =
     (if p = ''/base/.gitignore'' then Some (longNegation @ ''\<newline>secret/\<newline>'') else None)"

section \<open>Facts about the library functions\<close>

lemma strings_Split_not_Nil: "strings_Split s sep \<noteq> []"
  by (induction s) (auto split: list.splits)

lemma hd_strings_Split_prefix: "prefix (hd (strings_Split s sep)) s"
  by (induction s) (auto split: list.splits)

lemma in_strings_Split_sublist: "e \<in> set (strings_Split s sep) \<Longrightarrow> sublist e s"
proof (induction s arbitrary: e)
  case Nil
  then show ?case by simp
next
  case (Cons c cs)
  show ?case
  proof (cases "c = sep")
    case True
    with Cons.prems have "e = [] \<or> e \<in> set (strings_Split cs sep)" by simp
    then show ?thesis
      using Cons.IH by (auto simp: sublist_Cons_right)
  next
    case False
    obtain piece pieces where sp: "strings_Split cs sep = piece # pieces"
      using strings_Split_not_Nil by (cases "strings_Split cs sep") auto
    with False Cons.prems have "e = c # piece \<or> e \<in> set pieces" by simp
    then show ?thesis
    proof
      assume "e = c # piece"
      moreover have "prefix piece cs"
        using hd_strings_Split_prefix [of cs sep] sp by simp
      ultimately show ?thesis by (simp add: sublist_Cons_right)
    next
      assume "e \<in> set pieces"
      then have "sublist e cs" using Cons.IH sp by simp
      then show ?thesis by (simp add: sublist_Cons_right)
    qed
  qed
qed

lemma hasParentSegment_Contains: "hasParentSegment p \<Longrightarrow> strings_Contains p ''..''"
  by (simp add: hasParentSegment_def strings_Contains_def in_strings_Split_sublist)

section \<open>Path validation\<close>

lemma validateFilePath_dotdot:
  "strings_Contains (filepath_Clean filePath) ''..''
   \<Longrightarrow> validateFilePath config filePath = Inl PathTraversalNotAllowed"
  by (simp add: validateFilePath_def)

lemma handleReadFileContents_invalid:
  "validateFilePath config filePath = Inl err
   \<Longrightarrow> handleReadFileContents config fs (Some filePath)
       = (ToolResultError (InvalidFilePath err), [])"
  by (simp add: handleReadFileContents_def)

text \<open>
  Claim C10. Path validation rejects, as path traversal, every input whose cleaned
  form contains \<^verbatim>\<open>..\<close> anywhere as a substring, also inside one file name: the handler
  answers with the error and makes no file system call.
\<close>

theorem validateFilePath_rejects_dotdot_substring:
  assumes "strings_Contains (filepath_Clean filePath) ''..''"
  shows "validateFilePath config filePath = Inl PathTraversalNotAllowed
         \<and> handleReadFileContents config fs (Some filePath)
             = (ToolResultError (InvalidFilePath PathTraversalNotAllowed), [])"
  using assms by (simp add: validateFilePath_dotdot handleReadFileContents_invalid)

text \<open>
  The file name \<^verbatim>\<open>notes..txt\<close> is its own cleaned form and has no parent-directory
  segment, and is rejected.
\<close>

theorem validateFilePath_rejects_dotdot_substring_witness:
  "filepath_Clean ''notes..txt'' = ''notes..txt''
   \<and> \<not> hasParentSegment ''notes..txt''
   \<and> strings_Contains (filepath_Clean ''notes..txt'') ''..''
   \<and> validateFilePath exampleConfig ''notes..txt'' = Inl PathTraversalNotAllowed
   \<and> handleReadFileContents exampleConfig exampleFs (Some ''notes..txt'')
       = (ToolResultError (InvalidFilePath PathTraversalNotAllowed), [])"
proof -
  have c: "filepath_Clean ''notes..txt'' = ''notes..txt''" by code_simp
  have n: "\<not> hasParentSegment ''notes..txt''" by code_simp
  have h: "strings_Contains (filepath_Clean ''notes..txt'') ''..''" by code_simp
  show ?thesis
    using c n h validateFilePath_rejects_dotdot_substring [OF h, of exampleConfig exampleFs]
    by simp
qed

text \<open>
  Claim C2, as stated, fails: \<^verbatim>\<open>a/../b\<close> has a parent-directory segment before
  normalization, and validation accepts it and the file is read.
\<close>

theorem validateFilePath_accepts_resolved_parent_counterexample:
  "hasParentSegment ''a/../b''
   \<and> validateFilePath exampleConfig ''a/../b'' = Inr ''/base/b''
   \<and> handleReadFileContents exampleConfig exampleFs (Some ''a/../b'')
       = (ToolResultText (FileContents ''a/../b'' 2 ''hi''),
          [OpStat ''/base/b'', OpReadFile ''/base/b''])"
  by code_simp

text \<open>
  Claim C2, amended. For every path whose normalized form has a parent-directory
  segment, or whose base-relative path, recomputed after joining the normalized path
  onto the base directory, cannot be computed or begins with a parent-directory
  segment, validation fails with one of its two errors, and the handler makes no
  file system call.
\<close>

theorem validateFilePath_rejects_parent_segment:
  assumes "hasParentSegment (filepath_Clean filePath)
           \<or> (case filepath_Rel (BasePath config)
                     (filepath_Join (BasePath config) (filepath_Clean filePath)) of
                 None \<Rightarrow> True
               | Some relPath \<Rightarrow> hd (strings_Split relPath CHR ''/'') = ''..'')"
  shows "\<exists>err. validateFilePath config filePath = Inl err
               \<and> handleReadFileContents config fs (Some filePath)
                   = (ToolResultError (InvalidFilePath err), [])"
proof -
  have "\<exists>err. validateFilePath config filePath = Inl err"
  proof (cases "strings_Contains (filepath_Clean filePath) ''..''")
    case True
    then show ?thesis by (simp add: validateFilePath_dotdot)
  next
    case False
    then have "\<not> hasParentSegment (filepath_Clean filePath)"
      using hasParentSegment_Contains by blast
    with assms have rel:
      "(case filepath_Rel (BasePath config)
               (filepath_Join (BasePath config) (filepath_Clean filePath)) of
          None \<Rightarrow> True
        | Some relPath \<Rightarrow> hd (strings_Split relPath CHR ''/'') = ''..'')"
      by simp
    show ?thesis
    proof (cases "filepath_Rel (BasePath config)
                    (filepath_Join (BasePath config) (filepath_Clean filePath))")
      case None
      with False show ?thesis by (simp add: validateFilePath_def)
    next
      case (Some relPath)
      with rel have "hd (strings_Split relPath CHR ''/'') = ''..''" by simp
      then have "prefix ''..'' relPath"
        using hd_strings_Split_prefix [of relPath "CHR ''/''"] by simp
      with False Some show ?thesis
        by (simp add: validateFilePath_def strings_HasPrefix_def)
    qed
  qed
  then show ?thesis
    using handleReadFileContents_invalid by blast
qed

theorem validateFilePath_rejects_parent_segment_witness:
  "hasParentSegment (filepath_Clean ''x/../../etc'')
   \<and> (\<exists>err. validateFilePath exampleConfig ''x/../../etc'' = Inl err
            \<and> handleReadFileContents exampleConfig exampleFs (Some ''x/../../etc'')
                = (ToolResultError (InvalidFilePath err), []))"
proof -
  have h: "hasParentSegment (filepath_Clean ''x/../../etc'')" by code_simp
  then have "hasParentSegment (filepath_Clean ''x/../../etc'')
           \<or> (case filepath_Rel (BasePath exampleConfig)
                     (filepath_Join (BasePath exampleConfig) (filepath_Clean ''x/../../etc'')) of
                 None \<Rightarrow> True
               | Some relPath \<Rightarrow> hd (strings_Split relPath CHR ''/'') = ''..'')"
    by simp
  from validateFilePath_rejects_parent_segment [OF this, of exampleFs] h
  show ?thesis by simp
qed

section \<open>Reading a file\<close>



section \<open>The search engine\<close>

subsection \<open>The loop over the queries\<close>

lemma executeGrepQuery_world:
  "snd (executeGrepQuery config w q cl) = w\<lparr>spawned := spawned w @ [grepArgs config q cl]\<rparr>"
  by (simp add: executeGrepQuery_def exec_Output_def split: cmd_result.splits)

lemma worldAfter_Nil: "worldAfter config cl w [] = w"
  by (simp add: worldAfter_def)

lemma worldAfter_Cons:
  "worldAfter config cl w (q # qs) = worldAfter config cl (snd (executeGrepQuery config w q cl)) qs"
  by (simp add: worldAfter_def executeGrepQuery_world)

lemma length_queryResults: "length (queryResults config cl w qs) = length qs"
  by (induction qs arbitrary: w) auto

lemma searchLoop_queryResults:
  "i + length qs \<le> length results \<Longrightarrow>
   searchLoop config cl i qs (results, w)
     = (take i results @ queryResults config cl w qs @ drop (i + length qs) results,
        worldAfter config cl w qs)"
proof (induction qs arbitrary: i results w)
  case Nil
  then show ?case by (simp add: worldAfter_Nil)
next
  case (Cons q qs)
  let ?e = "executeGrepQuery config w q cl"
  let ?r = "storedResult q (fst ?e)"
  from Cons.prems have i: "i < length results" by simp
  have step: "searchLoop config cl i (q # qs) (results, w)
        = searchLoop config cl (Suc i) qs (results[i := ?r], snd ?e)"
    by (cases ?e) (auto simp: storedResult_def split: sum.splits)
  have len: "Suc i + length qs \<le> length (results[i := ?r])"
    using Cons.prems by simp
  have t: "take (Suc i) (results[i := ?r]) = take i results @ [?r]"
    using i by (simp add: take_Suc_conv_app_nth)
  have d: "drop (Suc i + length qs) (results[i := ?r]) = drop (Suc i + length qs) results"
    by simp
  show ?case
    unfolding step Cons.IH [OF len] t d
    by (simp add: worldAfter_Cons)
qed

lemma nth_queryResults:
  "i < length qs \<Longrightarrow>
   queryResults config cl w qs ! i
     = storedResult (qs ! i)
         (fst (executeGrepQuery config (worldAfter config cl w (take i qs)) (qs ! i) cl))"
proof (induction qs arbitrary: i w)
  case Nil
  then show ?case by simp
next
  case (Cons q qs)
  show ?case
  proof (cases i)
    case 0
    then show ?thesis by (simp add: worldAfter_Nil)
  next
    case (Suc j)
    with Cons.prems have "j < length qs" by simp
    from Cons.IH [OF this] Suc show ?thesis
      by (simp add: worldAfter_Cons)
  qed
qed

lemma handleGrepSearch_results:
  assumes "qs \<noteq> []" and "length qs \<le> 20"
  shows "handleGrepSearch config w (QueriesDecoded qs) ctx
     = (ToolResultText (SearchResults (BasePath config) (contextLinesOf ctx)
          (queryResults config (contextLinesOf ctx) w qs)),
        worldAfter config (contextLinesOf ctx) w qs)"
proof -
  have "searchLoop config (contextLinesOf ctx) 0 qs
          (replicate (length qs) \<lparr>Query = [], Matches = None, Error = None\<rparr>, w)
        = (queryResults config (contextLinesOf ctx) w qs, worldAfter config (contextLinesOf ctx) w qs)"
    by (subst searchLoop_queryResults) simp_all
  with assms show ?thesis
    by (simp add: handleGrepSearch_def contextLinesOf_def Let_def)
qed

lemma Query_storedResult:
  "Query (storedResult q (fst (executeGrepQuery config w q cl))) = Pattern q"
  by (simp add: storedResult_def executeGrepQuery_def exec_Output_def split: cmd_result.splits)

lemma Error_storedResult:
  "(Error (storedResult q (fst (executeGrepQuery config w q cl))) \<noteq> None)
   = processFailed (grep w (length (spawned w)) (grepArgs config q cl))"
  by (simp add: storedResult_def executeGrepQuery_def exec_Output_def processFailed_def
      split: cmd_result.splits)

lemma fst_executeGrepQuery_cong:
  assumes "length (spawned w1) = length (spawned w2)"
    and "grep w1 (length (spawned w1)) = grep w2 (length (spawned w2))"
    and "rangeSeed w1 = rangeSeed w2"
  shows "fst (executeGrepQuery config w1 q cl) = fst (executeGrepQuery config w2 q cl)"
  using assms
  by (simp add: executeGrepQuery_def exec_Output_def parseGrepOutput_def split: cmd_result.splits)

lemma spawned_worldAfter:
  "length (spawned (worldAfter config cl w qs)) = length (spawned w) + length qs"
  by (simp add: worldAfter_def)

lemma grep_worldAfter: "grep (worldAfter config cl w qs) = grep w"
  by (simp add: worldAfter_def)

lemma rangeSeed_worldAfter: "rangeSeed (worldAfter config cl w qs) = rangeSeed w"
  by (simp add: worldAfter_def)

lemma searchResults_handleGrepSearch:
  assumes "qs \<noteq> []" and "length qs \<le> 20"
  shows "searchResults (handleGrepSearch config w (QueriesDecoded qs) ctx)
         = queryResults config (contextLinesOf ctx) w qs"
  by (simp add: handleGrepSearch_results [OF assms] searchResults_def)

lemma queryResults_other_process:
  assumes "i < length qs" and "j \<noteq> i"
  shows "queryResults config cl (w\<lparr>grep := (grep w)(length (spawned w) + j := g)\<rparr>) qs ! i
         = queryResults config cl w qs ! i"
proof -
  let ?w' = "w\<lparr>grep := (grep w)(length (spawned w) + j := g)\<rparr>"
  have "fst (executeGrepQuery config (worldAfter config cl ?w' (take i qs)) (qs ! i) cl)
        = fst (executeGrepQuery config (worldAfter config cl w (take i qs)) (qs ! i) cl)"
  proof (rule fst_executeGrepQuery_cong)
    show "length (spawned (worldAfter config cl ?w' (take i qs)))
          = length (spawned (worldAfter config cl w (take i qs)))"
      by (simp add: spawned_worldAfter)
    show "grep (worldAfter config cl ?w' (take i qs))
            (length (spawned (worldAfter config cl ?w' (take i qs))))
          = grep (worldAfter config cl w (take i qs))
              (length (spawned (worldAfter config cl w (take i qs))))"
      using assms by (simp add: spawned_worldAfter grep_worldAfter)
    show "rangeSeed (worldAfter config cl ?w' (take i qs))
          = rangeSeed (worldAfter config cl w (take i qs))"
      by (simp add: rangeSeed_worldAfter)
  qed
  with assms(1) show ?thesis
    by (simp add: nth_queryResults)
qed

text \<open>
  Claim C3. A search call with 1 to 20 queries returns one result per query, at the
  position of the query: the result at position \<open>i\<close> is what executing query \<open>i\<close>
  gave, in the world as the queries before it left it; it carries the pattern of
  query \<open>i\<close>, and an error exactly when the process of query \<open>i\<close> failed. What the
  process of another query \<open>j\<close> does, whether it fails or not, changes nothing in the
  result at position \<open>i\<close>.
\<close>

theorem handleGrepSearch_one_result_per_query:
  assumes "1 \<le> length qs" and "length qs \<le> 20"
  shows "\<exists>results w'.
           handleGrepSearch config w (QueriesDecoded qs) ctx
             = (ToolResultText (SearchResults (BasePath config) (contextLinesOf ctx) results), w')
           \<and> length results = length qs
           \<and> (\<forall>i<length qs.
                 results ! i
                   = storedResult (qs ! i)
                       (fst (executeGrepQuery config
                               (worldAfter config (contextLinesOf ctx) w (take i qs))
                               (qs ! i) (contextLinesOf ctx)))
                 \<and> Query (results ! i) = Pattern (qs ! i)
                 \<and> ((Error (results ! i) \<noteq> None)
                      = processFailed
                          (grep w (length (spawned w) + i)
                             (grepArgs config (qs ! i) (contextLinesOf ctx))))
                 \<and> (\<forall>j g. j \<noteq> i \<longrightarrow>
                        searchResults
                          (handleGrepSearch config
                             (w\<lparr>grep := (grep w)(length (spawned w) + j := g)\<rparr>)
                             (QueriesDecoded qs) ctx) ! i
                        = results ! i))"
proof -
  let ?cl = "contextLinesOf ctx"
  let ?rs = "queryResults config ?cl w qs"
  from assms have ne: "qs \<noteq> []" by auto
  have call: "handleGrepSearch config w (QueriesDecoded qs) ctx
      = (ToolResultText (SearchResults (BasePath config) ?cl ?rs), worldAfter config ?cl w qs)"
    by (rule handleGrepSearch_results [OF ne assms(2)])
  have each: "?rs ! i
        = storedResult (qs ! i)
            (fst (executeGrepQuery config (worldAfter config ?cl w (take i qs)) (qs ! i) ?cl))
      \<and> Query (?rs ! i) = Pattern (qs ! i)
      \<and> ((Error (?rs ! i) \<noteq> None)
           = processFailed (grep w (length (spawned w) + i) (grepArgs config (qs ! i) ?cl)))
      \<and> (\<forall>j g. j \<noteq> i \<longrightarrow>
             searchResults
               (handleGrepSearch config (w\<lparr>grep := (grep w)(length (spawned w) + j := g)\<rparr>)
                  (QueriesDecoded qs) ctx) ! i
             = ?rs ! i)"
    if i: "i < length qs" for i
  proof -
    have n: "?rs ! i
        = storedResult (qs ! i)
            (fst (executeGrepQuery config (worldAfter config ?cl w (take i qs)) (qs ! i) ?cl))"
      by (rule nth_queryResults [OF i])
    have q: "Query (?rs ! i) = Pattern (qs ! i)"
      unfolding n by (rule Query_storedResult)
    have e: "(Error (?rs ! i) \<noteq> None)
           = processFailed (grep w (length (spawned w) + i) (grepArgs config (qs ! i) ?cl))"
      unfolding n Error_storedResult using i
      by (simp add: spawned_worldAfter grep_worldAfter)
    have o: "searchResults
               (handleGrepSearch config (w\<lparr>grep := (grep w)(length (spawned w) + j := g)\<rparr>)
                  (QueriesDecoded qs) ctx) ! i
             = ?rs ! i" if "j \<noteq> i" for j g
      using queryResults_other_process [OF i that]
      by (simp add: searchResults_handleGrepSearch [OF ne assms(2)])
    from n q e o show ?thesis by blast
  qed
  have len: "length ?rs = length qs"
    by (rule length_queryResults)
  from call len each show ?thesis by blast
qed

theorem handleGrepSearch_one_result_per_query_witness:
  "1 \<le> length exampleQueries \<and> length exampleQueries \<le> 20
   \<and> length (searchResults
        (handleGrepSearch exampleConfig exampleWorld (QueriesDecoded exampleQueries) (Some 0))) = 3
   \<and> Query (searchResults
        (handleGrepSearch exampleConfig exampleWorld (QueriesDecoded exampleQueries) (Some 0)) ! 1)
       = ''y''
   \<and> Error (searchResults
        (handleGrepSearch exampleConfig exampleWorld (QueriesDecoded exampleQueries) (Some 0)) ! 0)
       = None
   \<and> Error (searchResults
        (handleGrepSearch exampleConfig exampleWorld (QueriesDecoded exampleQueries) (Some 0)) ! 1)
       \<noteq> None
   \<and> Error (searchResults
        (handleGrepSearch exampleConfig exampleWorld (QueriesDecoded exampleQueries) (Some 0)) ! 2)
       = None"
proof -
  have l1: "1 \<le> length exampleQueries" and l2: "length exampleQueries \<le> 20"
    by (simp_all add: exampleQueries_def)
  from handleGrepSearch_one_result_per_query [OF l1 l2, of exampleConfig exampleWorld "Some 0"]
  obtain results w' where
    call: "handleGrepSearch exampleConfig exampleWorld (QueriesDecoded exampleQueries) (Some 0)
           = (ToolResultText (SearchResults (BasePath exampleConfig) (contextLinesOf (Some 0))
                results), w')"
    and len: "length results = length exampleQueries"
    and each: "\<And>i. i < length exampleQueries \<Longrightarrow>
        Query (results ! i) = Pattern (exampleQueries ! i)
        \<and> ((Error (results ! i) \<noteq> None)
             = processFailed
                 (grep exampleWorld (length (spawned exampleWorld) + i)
                    (grepArgs exampleConfig (exampleQueries ! i) (contextLinesOf (Some 0)))))"
    by blast
  have sr: "searchResults
        (handleGrepSearch exampleConfig exampleWorld (QueriesDecoded exampleQueries) (Some 0))
      = results"
    by (simp add: call searchResults_def)
  have e0: "Error (results ! 0) = None"
    using each [of 0] by (simp add: exampleQueries_def exampleWorld_def processFailed_def)
  have e1: "Error (results ! 1) \<noteq> None"
    using each [of 1] by (simp add: exampleQueries_def exampleWorld_def processFailed_def)
  have e2: "Error (results ! 2) = None"
    using each [of 2] by (simp add: exampleQueries_def exampleWorld_def processFailed_def)
  have q1: "Query (results ! 1) = ''y''"
    using each [of 1] by (simp add: exampleQueries_def exampleQuery_def)
  from l1 l2 len e0 e1 e2 q1 show ?thesis
    unfolding sr by (simp add: exampleQueries_def)
qed

section \<open>Count validation\<close>

text \<open>
  Claim C5. A search call with no decoded query fails, a call with more than 20
  queries fails, and both leave the world as it was: no process has been started. A
  call with exactly 20 queries passes the validation: it starts 20 processes and
  returns 20 results.
\<close>

theorem handleGrepSearch_query_count:
  "handleGrepSearch config w (QueriesDecoded []) ctx
     = (ToolResultError AtLeastOneSearchQueryRequired, w)
   \<and> (20 < length qs \<longrightarrow>
        handleGrepSearch config w (QueriesDecoded qs) ctx
          = (ToolResultError Maximum20SearchQueriesAllowed, w))
   \<and> (length qs = 20 \<longrightarrow>
        (\<exists>results w'.
           handleGrepSearch config w (QueriesDecoded qs) ctx
             = (ToolResultText (SearchResults (BasePath config) (contextLinesOf ctx) results), w')
           \<and> length results = 20
           \<and> length (spawned w') = length (spawned w) + 20))"
proof (intro conjI impI)
  show "handleGrepSearch config w (QueriesDecoded []) ctx
     = (ToolResultError AtLeastOneSearchQueryRequired, w)"
    by (simp add: handleGrepSearch_def)
next
  assume "20 < length qs"
  then show "handleGrepSearch config w (QueriesDecoded qs) ctx
          = (ToolResultError Maximum20SearchQueriesAllowed, w)"
    by (auto simp: handleGrepSearch_def)
next
  assume l: "length qs = 20"
  then have ne: "qs \<noteq> []" and le: "length qs \<le> 20" by auto
  show "\<exists>results w'.
           handleGrepSearch config w (QueriesDecoded qs) ctx
             = (ToolResultText (SearchResults (BasePath config) (contextLinesOf ctx) results), w')
           \<and> length results = 20
           \<and> length (spawned w') = length (spawned w) + 20"
    using handleGrepSearch_results [OF ne le, of config w ctx] l
    by (simp add: length_queryResults spawned_worldAfter)
qed

theorem handleGrepSearch_query_count_witness:
  "handleGrepSearch exampleConfig exampleWorld (QueriesDecoded []) None
     = (ToolResultError AtLeastOneSearchQueryRequired, exampleWorld)
   \<and> 20 < length (replicate 21 (exampleQuery ''x''))
   \<and> handleGrepSearch exampleConfig exampleWorld
         (QueriesDecoded (replicate 21 (exampleQuery ''x''))) None
       = (ToolResultError Maximum20SearchQueriesAllowed, exampleWorld)
   \<and> length (replicate 20 (exampleQuery ''x'')) = 20
   \<and> (\<exists>results w'.
         handleGrepSearch exampleConfig exampleWorld
             (QueriesDecoded (replicate 20 (exampleQuery ''x''))) None
           = (ToolResultText (SearchResults (BasePath exampleConfig) (contextLinesOf None) results),
              w')
         \<and> length results = 20
         \<and> length (spawned w') = length (spawned exampleWorld) + 20)"
  using handleGrepSearch_query_count
      [of exampleConfig exampleWorld None "replicate 21 (exampleQuery ''x'')"]
    handleGrepSearch_query_count
      [of exampleConfig exampleWorld None "replicate 20 (exampleQuery ''x'')"]
  by simp

section \<open>Exit status of the search process\<close>

text \<open>
  Claim C4. The result \<open>r\<close> stored for a query executed in the world \<open>w\<close> (alone in a
  call, it is the one result of that call) depends on how its process ended: exit
  status 1 gives empty matches and no error; any other exit error, and any other
  failure, gives an error and no matches; exit status 0 gives the parsed output and
  no error. An error is set exactly when the process failed otherwise than with
  status 1.
\<close>

theorem executeGrepQuery_exit_status:
  "\<exists>r. r = storedResult query (fst (executeGrepQuery config w query (contextLinesOf ctx)))
       \<and> handleGrepSearch config w (QueriesDecoded [query]) ctx
           = (ToolResultText (SearchResults (BasePath config) (contextLinesOf ctx) [r]),
              worldAfter config (contextLinesOf ctx) w [query])
       \<and> Query r = Pattern query
       \<and> (case grep w (length (spawned w)) (grepArgs config query (contextLinesOf ctx)) of
             CmdExitError code msg \<Rightarrow>
               if code = 1 then Matches r = Some [] \<and> Error r = None
               else Matches r = None \<and> Error r = Some (''grep command failed: '' @ msg)
           | CmdOtherError msg \<Rightarrow>
               Matches r = None \<and> Error r = Some (''grep command failed: '' @ msg)
           | CmdOutput output \<Rightarrow>
               Matches r
                 = Some (parseGrepOutput config
                           (worldAfter config (contextLinesOf ctx) w [query]) output)
               \<and> Error r = None)
       \<and> ((Error r \<noteq> None)
            = processFailed
                (grep w (length (spawned w)) (grepArgs config query (contextLinesOf ctx))))"
proof -
  let ?cl = "contextLinesOf ctx"
  let ?r = "storedResult query (fst (executeGrepQuery config w query ?cl))"
  have call: "handleGrepSearch config w (QueriesDecoded [query]) ctx
           = (ToolResultText (SearchResults (BasePath config) ?cl [?r]),
              worldAfter config ?cl w [query])"
    using handleGrepSearch_results [of "[query]" config w ctx] by simp
  have cases: "(case grep w (length (spawned w)) (grepArgs config query ?cl) of
             CmdExitError code msg \<Rightarrow>
               if code = 1 then Matches ?r = Some [] \<and> Error ?r = None
               else Matches ?r = None \<and> Error ?r = Some (''grep command failed: '' @ msg)
           | CmdOtherError msg \<Rightarrow>
               Matches ?r = None \<and> Error ?r = Some (''grep command failed: '' @ msg)
           | CmdOutput output \<Rightarrow>
               Matches ?r = Some (parseGrepOutput config (worldAfter config ?cl w [query]) output)
               \<and> Error ?r = None)"
    by (simp add: storedResult_def executeGrepQuery_def exec_Output_def worldAfter_def
        split: cmd_result.splits)
  from call cases Query_storedResult [of query config w ?cl]
    Error_storedResult [of query config w ?cl]
  show ?thesis by blast
qed

theorem executeGrepQuery_exit_status_witness:
  "Matches (storedResult (exampleQuery ''x'')
      (fst (executeGrepQuery exampleConfig exampleWorld (exampleQuery ''x'') 5))) = Some []
   \<and> Error (storedResult (exampleQuery ''x'')
      (fst (executeGrepQuery exampleConfig exampleWorld (exampleQuery ''x'') 5))) = None
   \<and> Matches (storedResult (exampleQuery ''x'')
      (fst (executeGrepQuery exampleConfig (exampleWorld\<lparr>spawned := [[]]\<rparr>)
              (exampleQuery ''x'') 5))) = None
   \<and> Error (storedResult (exampleQuery ''x'')
      (fst (executeGrepQuery exampleConfig (exampleWorld\<lparr>spawned := [[]]\<rparr>)
              (exampleQuery ''x'') 5)))
       = Some ''grep command failed: exit status 2''
   \<and> Matches (storedResult (exampleQuery ''x'')
      (fst (executeGrepQuery exampleConfig (exampleWorld\<lparr>spawned := [[], []]\<rparr>)
              (exampleQuery ''x'') 5)))
       = Some [\<lparr>FilePath = ''b.txt'',
                 Lines = [\<lparr>LineNumber = 7, Content = ''beta'', IsMatch = True\<rparr>]\<rparr>,
               \<lparr>FilePath = ''a.txt'',
                 Lines = [\<lparr>LineNumber = 1, Content = ''alpha'', IsMatch = True\<rparr>]\<rparr>]
   \<and> Error (storedResult (exampleQuery ''x'')
      (fst (executeGrepQuery exampleConfig (exampleWorld\<lparr>spawned := [[], []]\<rparr>)
              (exampleQuery ''x'') 5))) = None"
proof -
  have p: "parseGrepOutput exampleConfig
             (worldAfter exampleConfig 5 (exampleWorld\<lparr>spawned := [[], []]\<rparr>) [exampleQuery ''x''])
             ''/base/a.txt:1:alpha\<newline>/base/b.txt:7:beta\<newline>''
           = [\<lparr>FilePath = ''b.txt'',
                 Lines = [\<lparr>LineNumber = 7, Content = ''beta'', IsMatch = True\<rparr>]\<rparr>,
               \<lparr>FilePath = ''a.txt'',
                 Lines = [\<lparr>LineNumber = 1, Content = ''alpha'', IsMatch = True\<rparr>]\<rparr>]"
    by code_simp
  show ?thesis
    using executeGrepQuery_exit_status [of "exampleQuery ''x''" exampleConfig exampleWorld None]
      executeGrepQuery_exit_status
        [of "exampleQuery ''x''" exampleConfig "exampleWorld\<lparr>spawned := [[]]\<rparr>" None]
      executeGrepQuery_exit_status
        [of "exampleQuery ''x''" exampleConfig "exampleWorld\<lparr>spawned := [[], []]\<rparr>" None]
      p
    by (simp add: contextLinesOf_def exampleWorld_def)
qed

section \<open>Parsing the output of grep\<close>

subsection \<open>Maps as entry lists\<close>

lemma keys_mapAppend:
  "map fst (mapAppend m k v) = (if k \<in> set (map fst m) then map fst m else map fst m @ [k])"
proof (induction m)
  case Nil
  then show ?case by simp
next
  case (Cons e m)
  obtain k' vs where e: "e = (k', vs)" by (cases e)
  show ?case
  proof (cases "k' = k")
    case True
    with e show ?thesis by simp
  next
    case False
    with e Cons.IH show ?thesis by simp
  qed
qed

lemma distinct_mapAppend:
  "distinct (map fst m) \<Longrightarrow> distinct (map fst (mapAppend m k v))"
  by (simp add: keys_mapAppend)

lemma valuesOf_mapAppend:
  "valuesOf (mapAppend m k v) k' = (if k' = k then valuesOf m k @ [v] else valuesOf m k')"
  by (induction m) (auto simp: valuesOf_def)

lemma keys_addRecord:
  "map fst (addRecord m r)
   = (if fst r \<in> set (map fst m) then map fst m else map fst m @ [fst r])"
  unfolding addRecord_def by (rule keys_mapAppend)

lemma distinct_addRecord:
  "distinct (map fst m) \<Longrightarrow> distinct (map fst (addRecord m r))"
  unfolding addRecord_def by (rule distinct_mapAppend)

lemma valuesOf_addRecord:
  "valuesOf (addRecord m r) k = (if k = fst r then valuesOf m k @ [snd r] else valuesOf m k)"
  unfolding addRecord_def by (simp add: valuesOf_mapAppend)

lemma keys_foldl_addRecord:
  "map fst (foldl addRecord m recs)
   = map fst m @ filter (\<lambda>k. k \<notin> set (map fst m)) (firstSeen (map fst recs))"
proof (induction recs arbitrary: m)
  case Nil
  then show ?case by simp
next
  case (Cons r recs)
  show ?case
  proof (cases "fst r \<in> set (map fst m)")
    case True
    then have "filter (\<lambda>k. k \<notin> set (map fst m)) (filter (\<lambda>y. y \<noteq> fst r) (firstSeen (map fst recs)))
             = filter (\<lambda>k. k \<notin> set (map fst m)) (firstSeen (map fst recs))"
      by (auto intro!: filter_cong)
    with True show ?thesis
      by (simp add: Cons.IH keys_addRecord)
  next
    case False
    have "filter (\<lambda>k. k \<notin> set (map fst m @ [fst r])) (firstSeen (map fst recs))
          = filter (\<lambda>k. k \<notin> set (map fst m)) (filter (\<lambda>y. y \<noteq> fst r) (firstSeen (map fst recs)))"
      by (auto intro!: filter_cong)
    with False show ?thesis
      by (simp add: Cons.IH keys_addRecord)
  qed
qed

lemma distinct_foldl_addRecord:
  "distinct (map fst m) \<Longrightarrow> distinct (map fst (foldl addRecord m recs))"
  by (induction recs arbitrary: m) (simp_all add: distinct_addRecord)

lemma valuesOf_foldl_addRecord:
  "valuesOf (foldl addRecord m recs) k
   = valuesOf m k @ map snd (filter (\<lambda>r. fst r = k) recs)"
  by (induction recs arbitrary: m) (simp_all add: valuesOf_addRecord)

lemma valuesOf_entry:
  "distinct (map fst m) \<Longrightarrow> (k, vs) \<in> set m \<Longrightarrow> valuesOf m k = vs"
  by (simp add: valuesOf_def)

lemma mset_mapRange: "mset (mapRange seed entries) = mset entries"
proof (induction seed arbitrary: entries)
  case Nil
  then show ?case by simp
next
  case (Cons n seed)
  show ?case
  proof (cases "entries = []")
    case True
    then show ?thesis by simp
  next
    case False
    let ?i = "n mod length entries"
    from False have i: "?i < length entries" by simp
    have "mset entries = mset (take ?i entries @ entries ! ?i # drop (Suc ?i) entries)"
      using id_take_nth_drop [OF i] by simp
    with False show ?thesis
      by (simp add: Cons.IH Let_def)
  qed
qed

lemma mapRange_any_order:
  "mset ys = mset entries \<Longrightarrow> \<exists>seed. mapRange seed entries = ys"
proof (induction ys arbitrary: entries)
  case Nil
  then have "entries = []" by simp
  then have "mapRange [] entries = []" by simp
  then show ?case by blast
next
  case (Cons y ys)
  then have "y \<in> set entries"
    by (metis list.set_intros(1) set_mset_mset)
  then obtain i where i: "i < length entries" and y: "entries ! i = y"
    by (auto simp: in_set_conv_nth)
  let ?rest = "take i entries @ drop (Suc i) entries"
  have "mset entries = mset ?rest + {#y#}"
    using id_take_nth_drop [OF i] y by (metis add_mset_add_single mset.simps(2) mset_append union_mset_add_mset_right)
  with Cons.prems have "mset ys = mset ?rest" by simp
  from Cons.IH [OF this] obtain seed where "mapRange seed ?rest = ys" by blast
  with i y have "mapRange (i # seed) entries = y # ys"
    by (auto simp: Let_def)
  then show ?case by blast
qed

subsection \<open>The groups of an output\<close>

lemma parseGrepLine_record:
  "parseGrepLine config m line
   = (case grepRecord config line of None \<Rightarrow> m | Some r \<Rightarrow> addRecord m r)"
  by (simp add: parseGrepLine_def grepRecord_def addRecord_def Let_def
      split: option.splits prod.splits)

lemma foldl_parseGrepLine:
  "foldl (parseGrepLine config) m lines
   = foldl addRecord m (List.map_filter (grepRecord config) lines)"
proof (induction lines arbitrary: m)
  case Nil
  then show ?case by (simp add: List.map_filter_simps)
next
  case (Cons line lines)
  then show ?case
    by (cases "grepRecord config line")
       (simp_all add: List.map_filter_simps parseGrepLine_record)
qed

lemma grepRecords_empty: "grepRecords config [] = []"
  by (simp add: grepRecords_def grepLines_def strings_TrimSpace_def stripTokens.simps
      spaceTokens_def List.map_filter_simps grepRecord_def lineRegex_def)

lemma mapRange_Nil: "mapRange seed [] = []"
  by (cases seed) simp_all

lemma parseGrepOutput_groups_eq:
  "parseGrepOutput config w output
   = map (\<lambda>(filePath, lines). \<lparr>FilePath = filePath, Lines = lines\<rparr>)
       (mapRange (rangeSeed w (length (spawned w)))
          (foldl addRecord [] (grepRecords config output)))"
proof (cases "output = []")
  case True
  then show ?thesis
    by (simp add: parseGrepOutput_def grepRecords_empty mapRange_Nil)
next
  case False
  then show ?thesis
    by (simp add: parseGrepOutput_def foldl_parseGrepLine grepRecords_def Let_def)
qed

lemma FilePath_groups:
  "map FilePath (map (\<lambda>(filePath, lines). \<lparr>FilePath = filePath, Lines = lines\<rparr>) es) = map fst es"
  by (induction es) auto

lemma keys_groups:
  "map fst (foldl addRecord [] (grepRecords config output)) = firstSeenKeys config output"
  by (simp add: keys_foldl_addRecord firstSeenKeys_def)

lemma entries_of_keys:
  assumes "distinct (map fst m)"
  shows "map (\<lambda>k. (k, valuesOf m k)) (map fst m) = m"
proof -
  have "map (\<lambda>e. (fst e, valuesOf m (fst e))) m = m"
  proof (rule map_idI)
    fix e assume "e \<in> set m"
    then have "(fst e, snd e) \<in> set m" by simp
    from valuesOf_entry [OF assms this] show "(fst e, valuesOf m (fst e)) = e" by simp
  qed
  then show ?thesis by (simp add: comp_def)
qed

text \<open>
  Claim C1, as stated, fails: the groups come out in the order of a \<^verbatim>\<open>range\<close> over a
  Go map, which need not be first-seen-key order. In \<open>exampleOutput\<close> the file
  \<^verbatim>\<open>a.txt\<close> is seen first, and in \<open>exampleWorld\<close> its group comes second.
\<close>

theorem parseGrepOutput_order_counterexample:
  "firstSeenKeys exampleConfig exampleOutput = [''a.txt'', ''b.txt'']
   \<and> map FilePath (parseGrepOutput exampleConfig exampleWorld exampleOutput)
       = [''b.txt'', ''a.txt'']"
  by code_simp

text \<open>
  Claim C1, amended. For every raw output, the \<^verbatim>\<open>matches\<close> sequence has one group for
  each file key of the output and no other: its file paths are the first-seen keys,
  each once, in some order; each group holds the lines recorded under its key, in
  the order of the output. The order of the groups is that of Go's map iteration:
  first-seen-key order when the iteration follows insertion, and every other order of
  the keys for some other iteration.
\<close>

theorem parseGrepOutput_groups:
  "mset (map FilePath (parseGrepOutput config w output)) = mset (firstSeenKeys config output)
   \<and> distinct (map FilePath (parseGrepOutput config w output))
   \<and> (\<forall>m \<in> set (parseGrepOutput config w output).
         Lines m = linesOfFile config output (FilePath m))
   \<and> (rangeSeed w (length (spawned w)) = [] \<longrightarrow>
         map FilePath (parseGrepOutput config w output) = firstSeenKeys config output)
   \<and> (\<forall>ks. mset ks = mset (firstSeenKeys config output) \<longrightarrow>
         (\<exists>seed. map FilePath (parseGrepOutput config (w\<lparr>rangeSeed := \<lambda>n. seed\<rparr>) output) = ks))"
proof -
  let ?g = "foldl addRecord [] (grepRecords config output)"
  let ?mk = "\<lambda>(filePath, lines). \<lparr>FilePath = filePath, Lines = lines\<rparr>"
  let ?r = "mapRange (rangeSeed w (length (spawned w))) ?g"
  have p: "parseGrepOutput config w output = map ?mk ?r"
    by (rule parseGrepOutput_groups_eq)
  have fp: "map FilePath (parseGrepOutput config w output) = map fst ?r"
    unfolding p by (rule FilePath_groups)
  have dg: "distinct (map fst ?g)"
    by (rule distinct_foldl_addRecord) simp
  have ms: "mset (map fst ?r) = mset (map fst ?g)"
    using mset_mapRange [of "rangeSeed w (length (spawned w))" ?g]
    by (metis mset_map)
  have 1: "mset (map FilePath (parseGrepOutput config w output))
           = mset (firstSeenKeys config output)"
    unfolding fp ms by (simp only: keys_groups)
  have 2: "distinct (map FilePath (parseGrepOutput config w output))"
    unfolding fp using dg ms by (metis mset_eq_imp_distinct_iff)
  have 3: "Lines m = linesOfFile config output (FilePath m)"
    if "m \<in> set (parseGrepOutput config w output)" for m
  proof -
    from that obtain k vs where m: "m = \<lparr>FilePath = k, Lines = vs\<rparr>" and "(k, vs) \<in> set ?r"
      unfolding p by auto
    then have "(k, vs) \<in> set ?g"
      using mset_mapRange [of "rangeSeed w (length (spawned w))" ?g]
      by (metis set_mset_mset)
    then have "valuesOf ?g k = vs"
      using dg by (rule valuesOf_entry [rotated])
    moreover have "valuesOf ([] :: (string \<times> GrepLine list) list) k = []"
      by (simp add: valuesOf_def)
    ultimately have "vs = linesOfFile config output k"
      by (simp add: valuesOf_foldl_addRecord linesOfFile_def)
    with m show ?thesis by simp
  qed
  have 4: "map FilePath (parseGrepOutput config w output) = firstSeenKeys config output"
    if "rangeSeed w (length (spawned w)) = []"
    unfolding fp using that by (simp add: keys_groups)
  have 5: "\<exists>seed. map FilePath (parseGrepOutput config (w\<lparr>rangeSeed := \<lambda>n. seed\<rparr>) output) = ks"
    if ks: "mset ks = mset (firstSeenKeys config output)" for ks
  proof -
    let ?e = "\<lambda>k. (k, valuesOf ?g k)"
    have g: "map ?e (map fst ?g) = ?g"
      using dg by (rule entries_of_keys)
    have "mset (map ?e ks) = image_mset ?e (mset (map fst ?g))"
      using ks by (simp add: keys_groups)
    also have "\<dots> = mset (map ?e (map fst ?g))"
      by (simp only: mset_map)
    finally have "mset (map ?e ks) = mset ?g"
      by (simp only: g)
    from mapRange_any_order [OF this] obtain seed where s: "mapRange seed ?g = map ?e ks"
      by blast
    have "map FilePath (parseGrepOutput config (w\<lparr>rangeSeed := \<lambda>n. seed\<rparr>) output)
          = map fst (mapRange seed ?g)"
      unfolding parseGrepOutput_groups_eq FilePath_groups by simp
    also have "\<dots> = ks"
      unfolding s by (simp add: comp_def)
    finally show ?thesis by blast
  qed
  from 1 2 3 4 5 show ?thesis by blast
qed

theorem parseGrepOutput_groups_witness:
  "mset (map FilePath (parseGrepOutput exampleConfig exampleWorld exampleOutput))
     = mset (firstSeenKeys exampleConfig exampleOutput)
   \<and> distinct (map FilePath (parseGrepOutput exampleConfig exampleWorld exampleOutput))
   \<and> \<lparr>FilePath = ''a.txt'',
        Lines = [\<lparr>LineNumber = 1, Content = ''alpha'', IsMatch = True\<rparr>,
                 \<lparr>LineNumber = 3, Content = ''alpha'', IsMatch = True\<rparr>]\<rparr>
       \<in> set (parseGrepOutput exampleConfig exampleWorld exampleOutput)
   \<and> linesOfFile exampleConfig exampleOutput ''a.txt''
       = [\<lparr>LineNumber = 1, Content = ''alpha'', IsMatch = True\<rparr>,
          \<lparr>LineNumber = 3, Content = ''alpha'', IsMatch = True\<rparr>]
   \<and> rangeSeed (exampleWorld\<lparr>rangeSeed := \<lambda>n. []\<rparr>)
         (length (spawned (exampleWorld\<lparr>rangeSeed := \<lambda>n. []\<rparr>))) = []
   \<and> map FilePath (parseGrepOutput exampleConfig (exampleWorld\<lparr>rangeSeed := \<lambda>n. []\<rparr>)
         exampleOutput)
       = firstSeenKeys exampleConfig exampleOutput
   \<and> mset [''b.txt'', ''a.txt''] = mset (firstSeenKeys exampleConfig exampleOutput)
   \<and> (\<exists>seed. map FilePath
         (parseGrepOutput exampleConfig (exampleWorld\<lparr>rangeSeed := \<lambda>n. seed\<rparr>) exampleOutput)
       = [''b.txt'', ''a.txt''])"
proof -
  let ?a = "\<lparr>FilePath = ''a.txt'',
        Lines = [\<lparr>LineNumber = 1, Content = ''alpha'', IsMatch = True\<rparr>,
                 \<lparr>LineNumber = 3, Content = ''alpha'', IsMatch = True\<rparr>]\<rparr>"
  have m: "?a \<in> set (parseGrepOutput exampleConfig exampleWorld exampleOutput)"
    by code_simp
  have k: "firstSeenKeys exampleConfig exampleOutput = [''a.txt'', ''b.txt'']"
    by code_simp
  have ks: "mset [''b.txt'', ''a.txt''] = mset (firstSeenKeys exampleConfig exampleOutput)"
    unfolding k by simp
  have s: "rangeSeed (exampleWorld\<lparr>rangeSeed := \<lambda>n. []\<rparr>)
         (length (spawned (exampleWorld\<lparr>rangeSeed := \<lambda>n. []\<rparr>))) = []"
    by simp
  from parseGrepOutput_groups [of exampleConfig exampleWorld exampleOutput] m
  have a: "mset (map FilePath (parseGrepOutput exampleConfig exampleWorld exampleOutput))
     = mset (firstSeenKeys exampleConfig exampleOutput)"
    and b: "distinct (map FilePath (parseGrepOutput exampleConfig exampleWorld exampleOutput))"
    and c: "Lines ?a = linesOfFile exampleConfig exampleOutput (FilePath ?a)"
    and e: "\<exists>seed. map FilePath
         (parseGrepOutput exampleConfig (exampleWorld\<lparr>rangeSeed := \<lambda>n. seed\<rparr>) exampleOutput)
       = [''b.txt'', ''a.txt'']"
    using ks by blast+
  from parseGrepOutput_groups [of exampleConfig "exampleWorld\<lparr>rangeSeed := \<lambda>n. []\<rparr>" exampleOutput] s
  have d: "map FilePath (parseGrepOutput exampleConfig (exampleWorld\<lparr>rangeSeed := \<lambda>n. []\<rparr>)
         exampleOutput)
       = firstSeenKeys exampleConfig exampleOutput"
    by blast
  from a b m c s d ks e show ?thesis by simp
qed

section \<open>The tree builder\<close>

lemma in_tl_strings_Split_sublist:
  "e \<in> set (tl (strings_Split s sep)) \<Longrightarrow> sublist (sep # e) s"
proof (induction s)
  case Nil
  then show ?case by simp
next
  case (Cons c cs)
  obtain piece pieces where sp: "strings_Split cs sep = piece # pieces"
    using strings_Split_not_Nil by (cases "strings_Split cs sep") auto
  have hd: "prefix piece cs"
    using hd_strings_Split_prefix [of cs sep] sp by simp
  show ?case
  proof (cases "c = sep")
    case True
    with Cons.prems sp have "e = piece \<or> e \<in> set pieces" by simp
    then show ?thesis
    proof
      assume "e = piece"
      with hd True show ?thesis by (simp add: sublist_Cons_right)
    next
      assume "e \<in> set pieces"
      with Cons.IH sp show ?thesis by (simp add: sublist_Cons_right)
    qed
  next
    case False
    with Cons.prems sp have "e \<in> set pieces" by simp
    with Cons.IH sp show ?thesis by (simp add: sublist_Cons_right)
  qed
qed

lemma no_git_segment:
  assumes "\<not> strings_HasPrefix p ''.git''" and "\<not> strings_Contains p ''/.git''"
  shows "\<not> hasGitSegment p"
proof
  assume "hasGitSegment p"
  then have "''.git'' \<in> set (strings_Split p CHR ''/'')"
    by (simp add: hasGitSegment_def)
  then have "''.git'' = hd (strings_Split p CHR ''/'') \<or> ''.git'' \<in> set (tl (strings_Split p CHR ''/''))"
    using strings_Split_not_Nil [of p "CHR ''/''"]
    by (cases "strings_Split p CHR ''/''") auto
  then show False
  proof
    assume "''.git'' = hd (strings_Split p CHR ''/'')"
    then have "prefix ''.git'' p"
      using hd_strings_Split_prefix [of p "CHR ''/''"] by simp
    with assms(1) show False by (simp add: strings_HasPrefix_def)
  next
    assume "''.git'' \<in> set (tl (strings_Split p CHR ''/''))"
    then have "sublist (CHR ''/'' # ''.git'') p"
      by (rule in_tl_strings_Split_sublist)
    with assms(2) show False by (simp add: strings_Contains_def)
  qed
qed

lemma not_ignored_no_git:
  assumes "basePath f = BasePath config" and "\<not> ShouldIgnore match f dirPath"
  shows "\<not> hasGitSegment (nodePath config dirPath)"
proof (cases "filepath_Rel (BasePath config) dirPath")
  case None
  then show ?thesis by (simp add: nodePath_def hasGitSegment_def)
next
  case (Some relPath)
  with assms have "\<not> strings_HasPrefix relPath ''.git''" and "\<not> strings_Contains relPath ''/.git''"
    by (auto simp: ShouldIgnore_def split: if_splits)
  then have "\<not> hasGitSegment relPath" by (rule no_git_segment)
  moreover have "\<not> hasGitSegment []" by (simp add: hasGitSegment_def)
  ultimately show ?thesis using Some by (simp add: nodePath_def)
qed

lemma build_Dir_children:
  assumes "buildFileTreeWithFilter match config dirPath d f (Dir entries) = Inr (Some t)"
  shows "\<not> ShouldIgnore match f dirPath"
    and "t = FileNode (filepath_Base dirPath) ''directory'' None (Children t)
               (nodePath config dirPath)"
    and "c \<in> set (Children t) \<Longrightarrow>
         \<exists>name entry. (name, entry) \<in> set entries
           \<and> \<not> ShouldIgnore match f (filepath_Join dirPath name)
           \<and> buildFileTreeWithFilter match config (filepath_Join dirPath name) (d + 1) f entry
               = Inr (Some c)"
proof -
  from assms show ni: "\<not> ShouldIgnore match f dirPath"
    by (simp split: if_splits)
  with assms show "t = FileNode (filepath_Base dirPath) ''directory'' None (Children t)
               (nodePath config dirPath)"
    by auto
  assume "c \<in> set (Children t)"
  with assms ni show "\<exists>name entry. (name, entry) \<in> set entries
           \<and> \<not> ShouldIgnore match f (filepath_Join dirPath name)
           \<and> buildFileTreeWithFilter match config (filepath_Join dirPath name) (d + 1) f entry
               = Inr (Some c)"
    by (auto simp: Let_def split: if_splits sum.splits option.splits) blast
qed

lemma build_NotDir:
  assumes "buildFileTreeWithFilter match config dirPath d f (NotDir statSize) = Inr (Some t)"
  shows "\<not> ShouldIgnore match f dirPath"
    and "t = FileNode (filepath_Base dirPath) ''file'' (Some statSize) [] (nodePath config dirPath)"
  using assms by (simp_all split: if_splits)

lemma subnodes_cases:
  "n \<in> set (subnodes t) \<Longrightarrow> n = t \<or> (\<exists>c \<in> set (Children t). n \<in> set (subnodes c))"
  by (cases t) auto

lemma build_no_git:
  "basePath f = BasePath config
   \<Longrightarrow> buildFileTreeWithFilter match config dirPath d f node = Inr (Some t)
   \<Longrightarrow> n \<in> set (subnodes t) \<Longrightarrow> \<not> hasGitSegment (Path n)"
proof (induction match config dirPath d f node arbitrary: t n rule: buildFileTreeWithFilter.induct)
  case (1 match config dirPath currentDepth ignoreFilter err)
  then show ?case by (simp split: if_splits)
next
  case (2 match config dirPath currentDepth ignoreFilter statSize)
  from build_NotDir [OF "2.prems"(2)] "2.prems"(3)
  have "\<not> ShouldIgnore match ignoreFilter dirPath" and "Path n = nodePath config dirPath"
    by auto
  with "2.prems"(1) show ?case
    by (simp add: not_ignored_no_git)
next
  case (3 match config dirPath currentDepth ignoreFilter err)
  then show ?case by (simp split: if_splits)
next
  case (4 match config dirPath currentDepth ignoreFilter entries)
  note b = build_Dir_children [OF "4.prems"(2)]
  from subnodes_cases [OF "4.prems"(3)] show ?case
  proof
    assume "n = t"
    with b(2) have "Path n = nodePath config dirPath"
      by (metis FileNode.sel(5))
    with b(1) "4.prems"(1) show ?thesis
      by (simp add: not_ignored_no_git)
  next
    assume "\<exists>c \<in> set (Children t). n \<in> set (subnodes c)"
    then obtain c where c: "c \<in> set (Children t)" and n: "n \<in> set (subnodes c)"
      by blast
    from b(3) [OF c] obtain name entry where e: "(name, entry) \<in> set entries"
      and ni: "\<not> ShouldIgnore match ignoreFilter (filepath_Join dirPath name)"
      and bc: "buildFileTreeWithFilter match config (filepath_Join dirPath name)
                 (currentDepth + 1) ignoreFilter entry = Inr (Some c)"
      by blast
    from "4.IH" [OF b(1) e refl refl ni "4.prems"(1) bc n] show ?thesis .
  qed
qed

lemma basePath_NewGitignoreFilter: "basePath (NewGitignoreFilter os_Open base) = base"
  by (simp add: NewGitignoreFilter_def Let_def)

text \<open>
  Claim C8. Whatever the base directory, the ignore file and the directory tree are,
  no node of the structure that the tool returns has a path with a \<^verbatim>\<open>.git\<close> element:
  the tree holds no node for a \<^verbatim>\<open>.git\<close> directory nor for anything below one.
\<close>

theorem handleReadFileStructure_no_git:
  assumes "handleReadFileStructure match config os_Open root
           = ToolResultText (FileStructure base (Some t) note)"
  shows "\<forall>n \<in> set (subnodes t). \<not> hasGitSegment (Path n)"
proof
  fix n assume n: "n \<in> set (subnodes t)"
  let ?f = "NewGitignoreFilter os_Open (BasePath config)"
  from assms have "buildFileTreeWithFilter match config (BasePath config) 0 ?f root = Inr (Some t)"
    by (simp add: handleReadFileStructure_def Let_def split: sum.splits)
  from build_no_git [OF basePath_NewGitignoreFilter this n]
  show "\<not> hasGitSegment (Path n)" .
qed

text \<open>The structure of the example tree, computed in three steps.\<close>

lemma exampleFilter:
  "NewGitignoreFilter exampleOpen ''/base''
   = \<lparr>patterns = [''.git'', ''.git/'', ''secret/''], basePath = ''/base''\<rparr>"
proof -
  have scan: "bufio_ScanLines ''secret/\<newline>'' = [''secret/'']"
    by (simp add: bufio_ScanLines_def rawLines_def MaxScanTokenSize_def dropCR_def)
  have pats: "scanPattern [''.git'', ''.git/''] ''secret/'' = [''.git'', ''.git/'', ''secret/'']"
    by code_simp
  have gi: "filepath_Join ''/base'' ''.gitignore'' = ''/base/.gitignore''"
    by code_simp
  show ?thesis
    by (simp add: NewGitignoreFilter_def gi exampleOpen_def scan pats)
qed

lemma exampleBuild:
  "buildFileTreeWithFilter literalMatch exampleConfig ''/base'' 0
     \<lparr>patterns = [''.git'', ''.git/'', ''secret/''], basePath = ''/base''\<rparr> exampleTree
   = Inr (Some exampleStructure)"
  by code_simp

lemma exampleStructure_built:
  "handleReadFileStructure literalMatch exampleConfig exampleOpen exampleTree
   = ToolResultText (FileStructure ''/base'' (Some exampleStructure)
       ''Filtered out .git directory and .gitignore patterns'')"
proof -
  have b: "BasePath exampleConfig = ''/base''" by (simp add: exampleConfig_def)
  show ?thesis
    unfolding handleReadFileStructure_def b exampleFilter Let_def exampleBuild by simp
qed

theorem handleReadFileStructure_no_git_witness:
  "handleReadFileStructure literalMatch exampleConfig exampleOpen exampleTree
     = ToolResultText (FileStructure ''/base'' (Some exampleStructure)
         ''Filtered out .git directory and .gitignore patterns'')
   \<and> list_all (\<lambda>n. \<not> hasGitSegment (Path n)) (subnodes exampleStructure)
   \<and> length (subnodes exampleStructure) = 4"
proof -
  have r: "handleReadFileStructure literalMatch exampleConfig exampleOpen exampleTree
     = ToolResultText (FileStructure ''/base'' (Some exampleStructure)
         ''Filtered out .git directory and .gitignore patterns'')"
    by (rule exampleStructure_built)
  have l: "length (subnodes exampleStructure) = 4"
    by code_simp
  from handleReadFileStructure_no_git [OF r] r l show ?thesis
    by (simp add: list_all_iff)
qed

subsection \<open>Absolute paths by their elements\<close>

lemma strings_Split_no_sep: "sep \<notin> set s \<Longrightarrow> strings_Split s sep = [s]"
  by (induction s) auto

lemma strings_Split_append:
  "sep \<notin> set e \<Longrightarrow> strings_Split (e @ sep # rest) sep = e # strings_Split rest sep"
  by (induction e) auto

lemma strings_Join_snoc:
  "strings_Join (es @ [e]) sep = (if es = [] then e else strings_Join es sep @ sep @ e)"
  by (induction es sep rule: strings_Join.induct) auto

lemma strings_Join_Cons:
  "es \<noteq> [] \<Longrightarrow> strings_Join (e # es) sep = e @ sep @ strings_Join es sep"
  by (cases es) auto

lemma strings_Split_Join:
  "es \<noteq> [] \<Longrightarrow> \<forall>e \<in> set es. sep \<notin> set e
   \<Longrightarrow> strings_Split (strings_Join es [sep]) sep = es"
proof (induction es)
  case Nil
  then show ?case by simp
next
  case (Cons e es)
  show ?case
  proof (cases "es = []")
    case True
    with Cons.prems show ?thesis by (simp add: strings_Split_no_sep)
  next
    case False
    with Cons show ?thesis
      by (simp add: strings_Join_Cons strings_Split_append)
  qed
qed

lemma in_strings_Split_no_sep: "x \<in> set (strings_Split s sep) \<Longrightarrow> sep \<notin> set x"
proof (induction s arbitrary: x)
  case Nil
  then show ?case by simp
next
  case (Cons c cs)
  obtain piece pieces where sp: "strings_Split cs sep = piece # pieces"
    using strings_Split_not_Nil by (cases "strings_Split cs sep") auto
  with Cons show ?case
    by (cases "c = sep") auto
qed

lemma cleanElems_valid:
  "\<forall>x \<in> set xs. x = [] \<or> validName x
   \<Longrightarrow> cleanElems rooted out xs = rev out @ filter (\<lambda>e. e \<noteq> []) xs"
  by (induction xs arbitrary: out) (auto simp: validName_def)

lemma cleanElems_rooted_set:
  "set (cleanElems True out xs)
   \<subseteq> set out \<union> {x \<in> set xs. x \<noteq> [] \<and> x \<noteq> ''.'' \<and> x \<noteq> ''..''}"
proof (induction xs arbitrary: out)
  case Nil
  then show ?case by simp
next
  case (Cons x xs)
  have tl: "set (tl out) \<subseteq> set out" by (cases out) auto
  show ?case
    using Cons.IH [of out] Cons.IH [of "tl out"] Cons.IH [of "x # out"] tl
    by auto
qed

lemma strings_Split_absPath:
  assumes "list_all validName es"
  shows "strings_Split (absPath es) CHR ''/'' = [] # (if es = [] then [[]] else es)"
proof (cases "es = []")
  case True
  then show ?thesis by (simp add: absPath_def)
next
  case False
  from assms have "\<forall>e \<in> set es. CHR ''/'' \<notin> set e"
    by (simp add: list_all_iff validName_def)
  with False have "strings_Split (strings_Join es ''/'') CHR ''/'' = es"
    by (rule strings_Split_Join)
  with False show ?thesis by (simp add: absPath_def)
qed

lemma isRooted_absPath: "isRooted (absPath es)"
  by (simp add: isRooted_def absPath_def)

lemma filepath_Clean_absPath:
  assumes "list_all validName es"
  shows "filepath_Clean (absPath es) = absPath es"
proof -
  have "cleanElems True [] ([] # (if es = [] then [[]] else es)) = es"
  proof (subst cleanElems_valid)
    show "\<forall>x\<in>set ([] # (if es = [] then [[]] else es)). x = [] \<or> validName x"
      using assms by (auto simp: list_all_iff)
    show "rev [] @ filter (\<lambda>e. e \<noteq> []) ([] # (if es = [] then [[]] else es)) = es"
      using assms by (auto simp: list_all_iff validName_def filter_id_conv)
  qed
  then show ?thesis
    using strings_Split_absPath [OF assms] isRooted_absPath [of es]
    by (simp add: filepath_Clean_def Let_def) (simp add: absPath_def)
qed

lemma absPath_of_clean:
  assumes "isRooted b" and "filepath_Clean b = b"
  shows "\<exists>bs. b = absPath bs \<and> list_all validName bs"
proof -
  let ?bs = "cleanElems True [] (strings_Split b CHR ''/'')"
  from assms(1) have "b \<noteq> []" by (auto simp: isRooted_def)
  with assms have "b = absPath ?bs"
    by (simp add: filepath_Clean_def Let_def absPath_def)
  moreover have "list_all validName ?bs"
    using cleanElems_rooted_set [of "[]" "strings_Split b CHR ''/''"]
      in_strings_Split_no_sep [of _ b "CHR ''/''"]
    by (auto simp: list_all_iff validName_def)
  ultimately show ?thesis by blast
qed

lemma absPath_snoc:
  assumes "list_all validName es"
  shows "absPath es @ ''/'' @ name = (if es = [] then ''//'' @ name else absPath (es @ [name]))"
  by (simp add: absPath_def strings_Join_snoc)

lemma filepath_Join_absPath:
  assumes "list_all validName es" and "validName name"
  shows "filepath_Join (absPath es) name = absPath (es @ [name])"
proof -
  have ne: "absPath es \<noteq> []" by (simp add: absPath_def)
  have v: "list_all validName (es @ [name])" using assms by simp
  show ?thesis
  proof (cases "es = []")
    case True
    from assms(2) have n: "CHR ''/'' \<notin> set name" "name \<noteq> []" "name \<noteq> ''.''" "name \<noteq> ''..''"
      by (simp_all add: validName_def)
    have "strings_Split (''//'' @ name) CHR ''/'' = [[], [], name]"
      using n(1) by (simp add: strings_Split_no_sep)
    then have "filepath_Clean (''//'' @ name) = ''/'' @ name"
      using n by (simp add: filepath_Clean_def isRooted_def Let_def)
    with True show ?thesis
      by (simp add: filepath_Join_def absPath_def)
  next
    case False
    then have "absPath es @ ''/'' @ name = absPath (es @ [name])"
      using absPath_snoc [OF assms(1)] by simp
    then show ?thesis
      using ne filepath_Clean_absPath [OF v] by (simp add: filepath_Join_def)
  qed
qed

lemma dropCommon_append: "dropCommon xs (xs @ ys) = ([], ys)"
  by (induction xs) auto

lemma absPath_root_iff:
  assumes "list_all validName es"
  shows "absPath es = ''/'' \<longleftrightarrow> es = []"
proof
  assume "absPath es = ''/''"
  then have "strings_Split (absPath es) CHR ''/'' = [[], []]" by simp
  with strings_Split_absPath [OF assms] show "es = []"
    using assms by (auto simp: validName_def split: if_splits)
next
  assume "es = []" then show "absPath es = ''/''" by (simp add: absPath_def)
qed

lemma pathElems_absPath:
  assumes "list_all validName es"
  shows "pathElems (absPath es) = [] # es"
  using strings_Split_absPath [OF assms] absPath_root_iff [OF assms]
  by (auto simp: pathElems_def absPath_def)

lemma absPath_inject:
  assumes "list_all validName xs" and "list_all validName ys" and "absPath xs = absPath ys"
  shows "xs = ys"
proof -
  from assms(3) have "pathElems (absPath xs) = pathElems (absPath ys)" by simp
  then show ?thesis
    by (simp add: pathElems_absPath assms(1,2))
qed

lemma filepath_Rel_absPath:
  assumes "list_all validName bs" and "list_all validName ns"
  shows "filepath_Rel (absPath bs) (absPath (bs @ ns))
         = Some (if ns = [] then ''.'' else strings_Join ns ''/'')"
proof -
  have v: "list_all validName (bs @ ns)" using assms by simp
  have cb: "filepath_Clean (absPath bs) = absPath bs"
    by (rule filepath_Clean_absPath [OF assms(1)])
  have ct: "filepath_Clean (absPath (bs @ ns)) = absPath (bs @ ns)"
    by (rule filepath_Clean_absPath [OF v])
  show ?thesis
  proof (cases "ns = []")
    case True
    then show ?thesis by (simp add: filepath_Rel_def cb)
  next
    case False
    have neq: "absPath (bs @ ns) \<noteq> absPath bs"
    proof
      assume "absPath (bs @ ns) = absPath bs"
      from absPath_inject [OF v assms(1) this] False show False by simp
    qed
    have nd: "absPath bs \<noteq> ''.''" by (simp add: absPath_def)
    show ?thesis
      using False neq nd
      by (simp add: filepath_Rel_def cb ct Let_def isRooted_absPath
          pathElems_absPath [OF assms(1)] pathElems_absPath [OF v] dropCommon_append)
  qed
qed

lemma filepath_Base_absPath:
  assumes "list_all validName es" and "validName name"
  shows "filepath_Base (absPath (es @ [name])) = name"
proof -
  from assms(2) have n: "CHR ''/'' \<notin> set name" "name \<noteq> []"
    by (simp_all add: validName_def)
  obtain pre where p: "absPath (es @ [name]) = pre @ ''/'' @ name"
    by (cases "es = []") (auto simp: absPath_def strings_Join_snoc)
  have l: "last name \<noteq> CHR ''/''" using n by (metis last_in_set)
  have r: "rev (pre @ ''/'' @ name) = rev name @ CHR ''/'' # rev pre" by simp
  have hd: "hd (rev name) \<noteq> CHR ''/''" using l n(2) by (simp add: hd_rev)
  have d: "dropWhile (\<lambda>c. c = CHR ''/'') (rev name @ CHR ''/'' # rev pre)
           = rev name @ CHR ''/'' # rev pre"
    using hd n(2) by (cases "rev name") auto
  have t: "takeWhile (\<lambda>c. c \<noteq> CHR ''/'') (rev name @ CHR ''/'' # rev pre) = rev name"
    using n(1) by (subst takeWhile_append2) auto
  have "filepath_Base (pre @ ''/'' @ name)
        = (let stripped = rev (dropWhile (\<lambda>c. c = CHR ''/'') (rev (pre @ ''/'' @ name)));
               last_elem = rev (takeWhile (\<lambda>c. c \<noteq> CHR ''/'') (rev stripped))
           in if last_elem = [] then ''/'' else last_elem)"
    by (simp add: filepath_Base_def)
  also have "\<dots> = name"
    unfolding r d Let_def rev_rev_ident t using n(2) by simp
  finally show ?thesis
    unfolding p .
qed

lemma strings_Join_valid_not_empty:
  assumes "list_all validName ns" and "ns \<noteq> []"
  shows "strings_Join ns ''/'' \<noteq> []" and "strings_Join ns ''/'' \<noteq> ''.''"
proof -
  from assms have s: "strings_Split (strings_Join ns ''/'') CHR ''/'' = ns"
    by (intro strings_Split_Join) (auto simp: list_all_iff validName_def)
  show "strings_Join ns ''/'' \<noteq> []"
  proof
    assume "strings_Join ns ''/'' = []"
    with s have "ns = [[]]" by simp
    with assms(1) show False by (simp add: validName_def)
  qed
  show "strings_Join ns ''/'' \<noteq> ''.''"
  proof
    assume "strings_Join ns ''/'' = ''.''"
    with s have "ns = [''.'']" by simp
    with assms(1) show False by (simp add: validName_def)
  qed
qed

lemma nodePath_absPath:
  assumes "BasePath config = absPath bs" and "list_all validName bs" and "list_all validName ns"
  shows "nodePath config (absPath (bs @ ns)) = (if ns = [] then [] else strings_Join ns ''/'')"
  using filepath_Rel_absPath [OF assms(2,3)] strings_Join_valid_not_empty [OF assms(3)] assms(1)
  by (simp add: nodePath_def)

subsection \<open>Paths that validation accepts\<close>

lemma strings_Join_append:
  "xs \<noteq> [] \<Longrightarrow> ys \<noteq> []
   \<Longrightarrow> strings_Join (xs @ ys) sep = strings_Join xs sep @ sep @ strings_Join ys sep"
proof (induction xs)
  case Nil
  then show ?case by simp
next
  case (Cons x xs)
  then show ?case
    by (cases "xs = []") (simp_all add: strings_Join_Cons)
qed

lemma filepath_Clean_names:
  assumes "list_all validName ns" and "ns \<noteq> []"
  shows "filepath_Clean (strings_Join ns ''/'') = strings_Join ns ''/''"
proof -
  from assms have s: "strings_Split (strings_Join ns ''/'') CHR ''/'' = ns"
    by (intro strings_Split_Join) (auto simp: list_all_iff validName_def)
  have c: "cleanElems False [] ns = ns"
  proof (subst cleanElems_valid)
    show "\<forall>x\<in>set ns. x = [] \<or> validName x" using assms(1) by (simp add: list_all_iff)
    show "rev [] @ filter (\<lambda>e. e \<noteq> []) ns = ns"
      using assms(1) by (auto simp: list_all_iff validName_def filter_id_conv)
  qed
  obtain n ns' where n: "ns = n # ns'" using assms(2) by (cases ns) auto
  with assms(1) have "n \<noteq> []" "CHR ''/'' \<notin> set n" by (simp_all add: validName_def)
  then obtain c n' where "n = c # n'" "c \<noteq> CHR ''/''" by (cases n) auto
  with n have r: "\<not> isRooted (strings_Join ns ''/'')"
    by (cases ns') (simp_all add: isRooted_def)
  show ?thesis
    using strings_Join_valid_not_empty(1) [OF assms] r s c assms(2)
    by (simp add: filepath_Clean_def Let_def)
qed

lemma filepath_Join_absPath_names:
  assumes "list_all validName bs" and "list_all validName ns" and "ns \<noteq> []"
  shows "filepath_Join (absPath bs) (strings_Join ns ''/'') = absPath (bs @ ns)"
proof -
  have ne: "absPath bs \<noteq> []" by (simp add: absPath_def)
  have v: "list_all validName (bs @ ns)" using assms by simp
  have "filepath_Clean (absPath bs @ ''/'' @ strings_Join ns ''/'') = absPath (bs @ ns)"
  proof (cases "bs = []")
    case True
    from assms(2,3) have s: "strings_Split (strings_Join ns ''/'') CHR ''/'' = ns"
      by (intro strings_Split_Join) (auto simp: list_all_iff validName_def)
    have c: "cleanElems True [] ([] # [] # ns) = ns"
    proof (subst cleanElems_valid)
      show "\<forall>x\<in>set ([] # [] # ns). x = [] \<or> validName x"
        using assms(2) by (simp add: list_all_iff)
      show "rev [] @ filter (\<lambda>e. e \<noteq> []) ([] # [] # ns) = ns"
        using assms(2) by (auto simp: list_all_iff validName_def filter_id_conv)
    qed
    have "filepath_Clean (''//'' @ strings_Join ns ''/'') = ''/'' @ strings_Join ns ''/''"
      using s c by (simp add: filepath_Clean_def isRooted_def Let_def)
    with True show ?thesis by (simp add: absPath_def)
  next
    case False
    with assms(3) have "absPath bs @ ''/'' @ strings_Join ns ''/'' = absPath (bs @ ns)"
      by (simp add: absPath_def strings_Join_append)
    with filepath_Clean_absPath [OF v] show ?thesis by simp
  qed
  with ne show ?thesis by (simp add: filepath_Join_def)
qed

text \<open>
  Validation accepts every relative path that names a file below a cleaned absolute
  base directory by the names of its directories and its own, when the path has no
  two dots in a row, and resolves it to the file's absolute path.
\<close>

lemma validateFilePath_accepts_names:
  assumes "BasePath config = absPath bs" and "list_all validName bs"
    and "list_all validName ns" and "ns \<noteq> []"
    and "\<not> strings_Contains (strings_Join ns ''/'') ''..''"
  shows "validateFilePath config (strings_Join ns ''/'') = Inr (absPath (bs @ ns))"
proof -
  have c: "filepath_Clean (strings_Join ns ''/'') = strings_Join ns ''/''"
    by (rule filepath_Clean_names [OF assms(3,4)])
  have j: "filepath_Join (absPath bs) (strings_Join ns ''/'') = absPath (bs @ ns)"
    by (rule filepath_Join_absPath_names [OF assms(2,3,4)])
  have r: "filepath_Rel (absPath bs) (absPath (bs @ ns)) = Some (strings_Join ns ''/'')"
    using filepath_Rel_absPath [OF assms(2,3)] assms(4) by simp
  have p: "\<not> strings_HasPrefix (strings_Join ns ''/'') ''..''"
    using assms(5) by (auto simp: strings_HasPrefix_def strings_Contains_def)
  show ?thesis
    using assms(5) p by (simp add: validateFilePath_def c assms(1) j r)
qed

subsection \<open>The invariants of the nodes\<close>

lemma build_root:
  assumes "buildFileTreeWithFilter match config dirPath d f node = Inr (Some t)"
  shows "Path t = nodePath config dirPath" and "Name t = filepath_Base dirPath"
    and "nodeShape t"
  using assms by (cases node; auto simp: nodeShape_def split: if_splits)+

lemma build_shape:
  "buildFileTreeWithFilter match config dirPath d f node = Inr (Some t)
   \<Longrightarrow> n \<in> set (subnodes t) \<Longrightarrow> nodeShape n"
proof (induction match config dirPath d f node arbitrary: t n rule: buildFileTreeWithFilter.induct)
  case (1 match config dirPath currentDepth ignoreFilter err)
  then show ?case by (simp split: if_splits)
next
  case (2 match config dirPath currentDepth ignoreFilter statSize)
  from build_NotDir [OF "2.prems"(1)] "2.prems"(2) have "n = t" by auto
  with build_root(3) [OF "2.prems"(1)] show ?case by simp
next
  case (3 match config dirPath currentDepth ignoreFilter err)
  then show ?case by (simp split: if_splits)
next
  case (4 match config dirPath currentDepth ignoreFilter entries)
  note b = build_Dir_children [OF "4.prems"(1)]
  from subnodes_cases [OF "4.prems"(2)] show ?case
  proof
    assume "n = t"
    with build_root(3) [OF "4.prems"(1)] show ?thesis by simp
  next
    assume "\<exists>c \<in> set (Children t). n \<in> set (subnodes c)"
    then obtain c where c: "c \<in> set (Children t)" and n: "n \<in> set (subnodes c)"
      by blast
    from b(3) [OF c] obtain name entry where e: "(name, entry) \<in> set entries"
      and ni: "\<not> ShouldIgnore match ignoreFilter (filepath_Join dirPath name)"
      and bc: "buildFileTreeWithFilter match config (filepath_Join dirPath name)
                 (currentDepth + 1) ignoreFilter entry = Inr (Some c)"
      by blast
    from "4.IH" [OF b(1) e refl refl ni bc n] show ?thesis .
  qed
qed

lemma build_childPaths:
  "BasePath config = absPath bs \<Longrightarrow> list_all validName bs \<Longrightarrow> list_all validName ns
   \<Longrightarrow> dirPath = absPath (bs @ ns) \<Longrightarrow> validFs node
   \<Longrightarrow> buildFileTreeWithFilter match config dirPath d f node = Inr (Some t)
   \<Longrightarrow> n \<in> set (subnodes t) \<Longrightarrow> childPathsOk n"
proof (induction match config dirPath d f node arbitrary: ns t n
    rule: buildFileTreeWithFilter.induct)
  case (1 match config dirPath currentDepth ignoreFilter err)
  then show ?case by (simp split: if_splits)
next
  case (2 match config dirPath currentDepth ignoreFilter statSize)
  from build_NotDir [OF "2.prems"(6)] "2.prems"(7) have "n = t" and "Children t = []"
    by auto
  then show ?case by (simp add: childPathsOk_def)
next
  case (3 match config dirPath currentDepth ignoreFilter err)
  then show ?case by (simp split: if_splits)
next
  case (4 match config dirPath currentDepth ignoreFilter entries)
  note b = build_Dir_children [OF "4.prems"(6)]
  have v: "list_all validName (bs @ ns)"
    using "4.prems"(2,3) by simp
  have child: "\<exists>name entry. (name, entry) \<in> set entries \<and> validName name \<and> validFs entry
        \<and> \<not> ShouldIgnore match ignoreFilter (filepath_Join dirPath name)
        \<and> filepath_Join dirPath name = absPath (bs @ ns @ [name])
        \<and> buildFileTreeWithFilter match config (filepath_Join dirPath name)
             (currentDepth + 1) ignoreFilter entry = Inr (Some c)"
    if c: "c \<in> set (Children t)" for c
  proof -
    from b(3) [OF c] obtain name entry where e: "(name, entry) \<in> set entries"
      and ni: "\<not> ShouldIgnore match ignoreFilter (filepath_Join dirPath name)"
      and bc: "buildFileTreeWithFilter match config (filepath_Join dirPath name)
                 (currentDepth + 1) ignoreFilter entry = Inr (Some c)"
      by blast
    from e "4.prems"(5) have vn: "validName name" and ve: "validFs entry"
      by (auto simp: list_all_iff)
    have "filepath_Join dirPath name = absPath (bs @ ns @ [name])"
      using filepath_Join_absPath [OF v vn] "4.prems"(4) by simp
    with e ni bc vn ve show ?thesis by blast
  qed
  from subnodes_cases [OF "4.prems"(7)] show ?case
  proof
    assume nt: "n = t"
    have pt: "Path t = (if ns = [] then [] else strings_Join ns ''/'')"
      using build_root(1) [OF "4.prems"(6)] "4.prems"(4)
        nodePath_absPath [OF "4.prems"(1,2,3)] by simp
    have "Path c = (if Path t = [] then Name c else Path t @ ''/'' @ Name c)"
      if c: "c \<in> set (Children t)" for c
    proof -
      from child [OF c] obtain name entry where vn: "validName name"
        and j: "filepath_Join dirPath name = absPath (bs @ ns @ [name])"
        and bc: "buildFileTreeWithFilter match config (filepath_Join dirPath name)
                 (currentDepth + 1) ignoreFilter entry = Inr (Some c)"
        by blast
      have vns: "list_all validName (ns @ [name])"
        using "4.prems"(3) vn by simp
      have pc: "Path c = strings_Join (ns @ [name]) ''/''"
        using build_root(1) [OF bc] j nodePath_absPath [OF "4.prems"(1,2) vns] by simp
      have nc: "Name c = name"
        using build_root(2) [OF bc] j filepath_Base_absPath [OF v vn] by simp
      show ?thesis
      proof (cases "ns = []")
        case True
        with pt pc nc show ?thesis by simp
      next
        case False
        with strings_Join_valid_not_empty(1) [OF "4.prems"(3)] pt
        have "Path t = strings_Join ns ''/''" and "Path t \<noteq> []" by simp_all
        with pc nc False show ?thesis by (simp add: strings_Join_snoc)
      qed
    qed
    with nt show ?thesis by (simp add: childPathsOk_def list_all_iff)
  next
    assume "\<exists>c \<in> set (Children t). n \<in> set (subnodes c)"
    then obtain c where c: "c \<in> set (Children t)" and n: "n \<in> set (subnodes c)"
      by blast
    from child [OF c] obtain name entry where e: "(name, entry) \<in> set entries"
      and vn: "validName name" and ve: "validFs entry"
      and ni: "\<not> ShouldIgnore match ignoreFilter (filepath_Join dirPath name)"
      and j: "filepath_Join dirPath name = absPath (bs @ ns @ [name])"
      and bc: "buildFileTreeWithFilter match config (filepath_Join dirPath name)
                 (currentDepth + 1) ignoreFilter entry = Inr (Some c)"
      by blast
    have vns: "list_all validName (ns @ [name])"
      using "4.prems"(3) vn by simp
    have j': "filepath_Join dirPath name = absPath (bs @ (ns @ [name]))"
      using j by simp
    from "4.IH" [OF b(1) e refl refl ni "4.prems"(1,2) vns j' ve bc n] show ?thesis .
  qed
qed

lemma nodePath_base: "nodePath config (BasePath config) = []"
  by (simp add: nodePath_def filepath_Rel_def)

text \<open>
  Claim C9. In the structure that the tool returns, the path of the root is empty,
  and every node is a file with a size and no children, or a directory with no size.
  When the base directory is a cleaned absolute path, as the configuration makes it,
  and the entries of the directories have the names of a directory listing, the path
  of every node but the root is its base-relative path: the path of its parent,
  followed by a separator when the parent is not the root, and by its own name.
\<close>

theorem handleReadFileStructure_node_invariants:
  assumes "handleReadFileStructure match config os_Open root
           = ToolResultText (FileStructure base (Some t) note)"
  shows "Path t = []
         \<and> (\<forall>n \<in> set (subnodes t). nodeShape n)
         \<and> (isRooted (BasePath config) \<and> filepath_Clean (BasePath config) = BasePath config
              \<and> validFs root
            \<longrightarrow> (\<forall>n \<in> set (subnodes t). childPathsOk n))"
proof -
  let ?f = "NewGitignoreFilter os_Open (BasePath config)"
  from assms have b: "buildFileTreeWithFilter match config (BasePath config) 0 ?f root
                      = Inr (Some t)"
    by (simp add: handleReadFileStructure_def Let_def split: sum.splits)
  have 1: "Path t = []"
    using build_root(1) [OF b] by (simp add: nodePath_base)
  have 2: "\<forall>n \<in> set (subnodes t). nodeShape n"
    using build_shape [OF b] by blast
  have 3: "\<forall>n \<in> set (subnodes t). childPathsOk n"
    if "isRooted (BasePath config)" and "filepath_Clean (BasePath config) = BasePath config"
      and vf: "validFs root"
  proof -
    from absPath_of_clean [OF that(1,2)] obtain bs
      where bs: "BasePath config = absPath bs" and v: "list_all validName bs"
      by blast
    have e: "list_all validName ([] :: string list)" by simp
    have d: "BasePath config = absPath (bs @ [])" using bs by simp
    from build_childPaths [OF bs v e d vf b] show ?thesis by blast
  qed
  from 1 2 3 show ?thesis by blast
qed

theorem handleReadFileStructure_node_invariants_witness:
  "handleReadFileStructure literalMatch exampleConfig exampleOpen exampleTree
     = ToolResultText (FileStructure ''/base'' (Some exampleStructure)
         ''Filtered out .git directory and .gitignore patterns'')
   \<and> isRooted (BasePath exampleConfig)
   \<and> filepath_Clean (BasePath exampleConfig) = BasePath exampleConfig
   \<and> validFs exampleTree
   \<and> Path exampleStructure = []
   \<and> list_all nodeShape (subnodes exampleStructure)
   \<and> list_all childPathsOk (subnodes exampleStructure)
   \<and> map Path (subnodes exampleStructure) = [[], ''a.txt'', ''sub'', ''sub/b.txt'']"
proof -
  have r: "isRooted (BasePath exampleConfig)" by code_simp
  have c: "filepath_Clean (BasePath exampleConfig) = BasePath exampleConfig" by code_simp
  have v: "validFs exampleTree" by code_simp
  have p: "map Path (subnodes exampleStructure) = [[], ''a.txt'', ''sub'', ''sub/b.txt'']"
    by code_simp
  from handleReadFileStructure_node_invariants [OF exampleStructure_built] r c v p
    exampleStructure_built
  show ?thesis by (simp add: list_all_iff)
qed

section \<open>The ignore filter\<close>

lemma strings_Split_sep:
  "strings_Split (a @ sep # b) sep = strings_Split a sep @ strings_Split b sep"
proof (induction a)
  case Nil
  then show ?case by simp
next
  case (Cons c a)
  obtain piece pieces where sp: "strings_Split a sep = piece # pieces"
    using strings_Split_not_Nil by (cases "strings_Split a sep") auto
  with Cons show ?case by simp
qed

subsection \<open>Negation lines that the scanner delivers\<close>

lemma rawLines_at_boundary:
  assumes "pre = [] \<or> last pre = CHR 0x0A"
  shows "rawLines (pre @ rest) = rawLines pre @ rawLines rest"
proof (cases "pre = []")
  case True
  then show ?thesis by (simp add: rawLines_def)
next
  case False
  with assms obtain pre' where pre: "pre = pre' @ [CHR 0x0A]"
    by (metis append_butlast_last_id)
  have ne: "strings_Split rest CHR 0x0A \<noteq> []" by (rule strings_Split_not_Nil)
  have a: "strings_Split (pre @ rest) CHR 0x0A
           = strings_Split pre' CHR 0x0A @ strings_Split rest CHR 0x0A"
    unfolding pre using strings_Split_sep [of pre' "CHR 0x0A" rest] by simp
  have b: "strings_Split pre CHR 0x0A = strings_Split pre' CHR 0x0A @ [[]]"
    unfolding pre using strings_Split_sep [of pre' "CHR 0x0A" "[]"] by simp
  have "rawLines pre = strings_Split pre' CHR 0x0A"
    by (simp add: rawLines_def b)
  moreover have "rawLines (pre @ rest) = strings_Split pre' CHR 0x0A @ rawLines rest"
    using ne by (simp add: rawLines_def a butlast_append Let_def)
  ultimately show ?thesis by simp
qed

lemma rawLines_line:
  assumes "CHR 0x0A \<notin> set line"
  shows "rawLines (line @ CHR 0x0A # rest) = line # rawLines rest"
proof -
  have ne: "strings_Split rest CHR 0x0A \<noteq> []" by (rule strings_Split_not_Nil)
  have "strings_Split (line @ CHR 0x0A # rest) CHR 0x0A = line # strings_Split rest CHR 0x0A"
    by (rule strings_Split_append [OF assms])
  with ne show ?thesis by (simp add: rawLines_def Let_def)
qed

lemma stripTokens_no_prefix:
  "List.find (\<lambda>t. t \<noteq> [] \<and> prefix t s) toks = None \<Longrightarrow> stripTokens toks s = s"
  by (simp add: stripTokens.simps)

lemma stripTokens_keeps_last:
  "\<forall>t \<in> set toks. c \<notin> set t \<Longrightarrow> s \<noteq> [] \<Longrightarrow> last s = c
   \<Longrightarrow> stripTokens toks s \<noteq> [] \<and> last (stripTokens toks s) = c"
proof (induction toks s rule: stripTokens.induct)
  case (1 toks s)
  show ?case
  proof (cases "List.find (\<lambda>t. t \<noteq> [] \<and> prefix t s) toks")
    case None
    with "1.prems" show ?thesis by (simp add: stripTokens.simps)
  next
    case (Some t)
    then have t: "t \<in> set toks" "t \<noteq> []" "prefix t s"
      by (auto simp: find_Some_iff)
    then obtain rest where s: "s = t @ rest" by (auto simp: prefix_def)
    have "rest \<noteq> []"
    proof
      assume "rest = []"
      with s "1.prems"(3) t(2) have "c \<in> set t" by (metis append_Nil2 last_in_set)
      with "1.prems"(1) t(1) show False by blast
    qed
    with s "1.prems"(3) have r: "drop (length t) s = rest" "last rest = c" by simp_all
    from "1.IH" [OF Some "1.prems"(1)] r \<open>rest \<noteq> []\<close>
    have "stripTokens toks rest \<noteq> [] \<and> last (stripTokens toks rest) = c" by simp
    with Some r show ?thesis by (simp add: stripTokens.simps)
  qed
qed

lemma TrimSpace_negation:
  assumes "s \<noteq> []" and "hd s = CHR ''!''"
  shows "strings_HasPrefix (strings_TrimSpace s) ''!''"
proof -
  obtain s' where s: "s = CHR ''!'' # s'" using assms by (cases s) auto
  have "List.find (\<lambda>t. t \<noteq> [] \<and> prefix t s) spaceTokens = None"
    unfolding s by (simp add: spaceTokens_def)
  then have l: "stripTokens spaceTokens s = s" by (rule stripTokens_no_prefix)
  have "\<forall>t \<in> set (map rev spaceTokens). CHR ''!'' \<notin> set t"
    by (simp add: spaceTokens_def)
  moreover have "rev s \<noteq> []" "last (rev s) = CHR ''!''"
    using assms by (simp_all add: last_rev)
  ultimately have "stripTokens (map rev spaceTokens) (rev s) \<noteq> []
      \<and> last (stripTokens (map rev spaceTokens) (rev s)) = CHR ''!''"
    by (rule stripTokens_keeps_last)
  then have "strings_TrimSpace s \<noteq> []" "hd (strings_TrimSpace s) = CHR ''!''"
    by (simp_all add: strings_TrimSpace_def l hd_rev)
  then show ?thesis
    by (cases "strings_TrimSpace s") (simp_all add: strings_HasPrefix_def)
qed

lemma dropCR_negation:
  assumes "s \<noteq> []" and "hd s = CHR ''!''"
  shows "dropCR s \<noteq> [] \<and> hd (dropCR s) = CHR ''!''"
proof -
  obtain s' where s: "s = CHR ''!'' # s'" using assms by (cases s) auto
  show ?thesis
    unfolding s by (cases "s' = []") (simp_all add: dropCR_def)
qed

lemma scanPattern_negation:
  assumes "line \<noteq> []" and "hd line = CHR ''!''"
  shows "scanPattern pats (dropCR line) = pats"
proof -
  from dropCR_negation [OF assms]
  have p: "strings_HasPrefix (strings_TrimSpace (dropCR line)) ''!''"
    by (intro TrimSpace_negation) simp_all
  then have "strings_TrimSpace (dropCR line) \<noteq> []"
    by (auto simp: strings_HasPrefix_def)
  with p show ?thesis by (simp add: scanPattern_def Let_def)
qed

lemma foldl_scanPattern_negation:
  assumes "line \<noteq> []" and "hd line = CHR ''!''" and "length line < MaxScanTokenSize"
  shows "foldl scanPattern pats
           (map dropCR (takeWhile (\<lambda>l. length l < MaxScanTokenSize) (before @ line # after)))
         = foldl scanPattern pats
             (map dropCR (takeWhile (\<lambda>l. length l < MaxScanTokenSize) (before @ after)))"
proof (cases "\<forall>l \<in> set before. length l < MaxScanTokenSize")
  case True
  then show ?thesis
    using assms(3) by (simp add: takeWhile_append2 scanPattern_negation [OF assms(1,2)])
next
  case False
  then obtain l where "l \<in> set before" "\<not> length l < MaxScanTokenSize" by blast
  then show ?thesis by (simp add: takeWhile_append1)
qed

text \<open>
  A negation line that fits the scanner's buffer is inert: added with its newline at
  a line boundary of the ignore file, it leaves the patterns of the filter, and so
  every decision of \<^verbatim>\<open>ShouldIgnore\<close>, as they were.
\<close>

lemma NewGitignoreFilter_negation_inert:
  assumes "pre = [] \<or> last pre = CHR 0x0A"
    and "line \<noteq> []" and "hd line = CHR ''!''" and "CHR 0x0A \<notin> set line"
    and "length line < MaxScanTokenSize"
    and "os_Open (filepath_Join base ''.gitignore'') = Some (pre @ post)"
    and "os_Open' (filepath_Join base ''.gitignore'') = Some (pre @ line @ CHR 0x0A # post)"
  shows "NewGitignoreFilter os_Open' base = NewGitignoreFilter os_Open base"
    and "ShouldIgnore match (NewGitignoreFilter os_Open' base) path
         = ShouldIgnore match (NewGitignoreFilter os_Open base) path"
proof -
  have "rawLines (pre @ line @ CHR 0x0A # post) = rawLines pre @ line # rawLines post"
    using rawLines_at_boundary [OF assms(1), of "line @ CHR 0x0A # post"]
      rawLines_line [OF assms(4)] by simp
  moreover have "rawLines (pre @ post) = rawLines pre @ rawLines post"
    by (rule rawLines_at_boundary [OF assms(1)])
  ultimately have "foldl scanPattern pats (bufio_ScanLines (pre @ line @ CHR 0x0A # post))
        = foldl scanPattern pats (bufio_ScanLines (pre @ post))" for pats
    unfolding bufio_ScanLines_def
    using foldl_scanPattern_negation [OF assms(2,3,5)] by simp
  then show "NewGitignoreFilter os_Open' base = NewGitignoreFilter os_Open base"
    by (simp add: NewGitignoreFilter_def assms(6,7))
  then show "ShouldIgnore match (NewGitignoreFilter os_Open' base) path
         = ShouldIgnore match (NewGitignoreFilter os_Open base) path"
    by simp
qed

subsection \<open>A negation line that the scanner does not deliver\<close>

lemma longNegation_facts:
  "length longNegation = 65537" "CHR 0x0A \<notin> set longNegation"
  by (simp_all add: longNegation_def)

lemma scan_longNegation:
  "bufio_ScanLines (longNegation @ ''\<newline>secret/\<newline>'') = []"
proof -
  have "strings_Split (longNegation @ CHR 0x0A # ''secret/\<newline>'') CHR 0x0A
        = strings_Split longNegation CHR 0x0A @ strings_Split ''secret/\<newline>'' CHR 0x0A"
    by (rule strings_Split_sep)
  also have "\<dots> = [longNegation, ''secret/'', []]"
    by (simp add: strings_Split_no_sep [OF longNegation_facts(2)])
  finally have "rawLines (longNegation @ ''\<newline>secret/\<newline>'') = [longNegation, ''secret/'']"
    by (simp add: rawLines_def)
  then show ?thesis
    by (simp add: bufio_ScanLines_def longNegation_facts(1) MaxScanTokenSize_def)
qed

lemma exampleFilterLong:
  "NewGitignoreFilter exampleOpenLong ''/base''
   = \<lparr>patterns = [''.git'', ''.git/''], basePath = ''/base''\<rparr>"
proof -
  have gi: "filepath_Join ''/base'' ''.gitignore'' = ''/base/.gitignore''"
    by code_simp
  show ?thesis
    by (simp add: NewGitignoreFilter_def gi exampleOpenLong_def scan_longNegation)
qed

text \<open>
  Claim C7 fails on the code for a negation line that the scanner cannot hold. With
  the ignore file \<^verbatim>\<open>secret/\<close>, the path \<^verbatim>\<open>secret/x.txt\<close> is ignored. With a negation
  line of 65537 bytes added before that line, the scanner stops at the added line,
  the pattern \<^verbatim>\<open>secret/\<close> is never read, and the path is no longer ignored.
\<close>

theorem NewGitignoreFilter_long_negation_line:
  "patterns (NewGitignoreFilter exampleOpen ''/base'') = [''.git'', ''.git/'', ''secret/'']
   \<and> ShouldIgnore literalMatch (NewGitignoreFilter exampleOpen ''/base'') ''/base/secret/x.txt''
   \<and> exampleOpenLong ''/base/.gitignore''
       = Some (longNegation @ ''\<newline>'' @ the (exampleOpen ''/base/.gitignore''))
   \<and> patterns (NewGitignoreFilter exampleOpenLong ''/base'') = [''.git'', ''.git/'']
   \<and> \<not> ShouldIgnore literalMatch (NewGitignoreFilter exampleOpenLong ''/base'')
         ''/base/secret/x.txt''"
proof -
  have 1: "ShouldIgnore literalMatch
             \<lparr>patterns = [''.git'', ''.git/'', ''secret/''], basePath = ''/base''\<rparr>
             ''/base/secret/x.txt''"
    by code_simp
  have 2: "\<not> ShouldIgnore literalMatch
             \<lparr>patterns = [''.git'', ''.git/''], basePath = ''/base''\<rparr>
             ''/base/secret/x.txt''"
    by code_simp
  have 3: "exampleOpenLong ''/base/.gitignore''
       = Some (longNegation @ ''\<newline>'' @ the (exampleOpen ''/base/.gitignore''))"
    by (simp add: exampleOpenLong_def exampleOpen_def)
  from 1 2 3 show ?thesis
    by (simp add: exampleFilter exampleFilterLong)
qed

end
